theory Spec2Isabelle
  imports Complex_Main
begin

section \<open>Configuration (config.py)\<close>

text \<open>
  The write mode handed to \<^verbatim>\<open>DataFrame.to_sql\<close> as \<^verbatim>\<open>if_exists\<close>:
  \<^verbatim>\<open>'replace'\<close>, \<^verbatim>\<open>'append'\<close> or \<^verbatim>\<open>'fail'\<close>.
\<close>

datatype if_exists_mode = Replace | Append | Fail

record migration_config =
  batch_size :: nat
  table_name :: string
  schema :: string
  if_exists :: if_exists_mode
  chunksize :: nat

definition MIGRATION_CONFIG :: migration_config where
  "MIGRATION_CONFIG =
     \<lparr>batch_size = 1000, table_name = ''Companies'', schema = ''dbo'',
      if_exists = Replace, chunksize = 1000\<rparr>"

definition COLUMN_MAPPING :: "(string \<times> string) list" where
  "COLUMN_MAPPING =
     [(''name'', ''Name''),
      (''homepage_url'', ''HomepageURL''),
      (''category_list'', ''CategoryList''),
      (''funding_total_usd'', ''FundingTotalUSD''),
      (''status'', ''Status''),
      (''country_code'', ''CountryCode''),
      (''state_code'', ''StateCode''),
      (''city'', ''City''),
      (''funding_rounds'', ''FundingRounds''),
      (''founded_at'', ''FoundedAt''),
      (''first_funding_at'', ''FirstFundingAt''),
      (''last_funding_at'', ''LastFundingAt'')]"

record validation_rules =
  max_name_length :: nat
  max_url_length :: nat
  max_category_length :: nat
  max_status_length :: nat
  max_country_code_length :: nat
  max_state_code_length :: nat
  max_city_length :: nat
  min_funding_amount :: real
  max_funding_amount :: real

text \<open>
  The limits are Python numbers. \<^verbatim>\<open>max_funding_amount\<close> is written
  \<^verbatim>\<open>999999999999999.99\<close>, a float: doubles of that size are an eighth apart, and the
  nearest one to the literal is \<^verbatim>\<open>1e15\<close>, which is the value the program compares with.
\<close>

definition VALIDATION_RULES :: validation_rules where
  "VALIDATION_RULES =
     \<lparr>max_name_length = 255, max_url_length = 500, max_category_length = 500,
      max_status_length = 50, max_country_code_length = 10, max_state_code_length = 50,
      max_city_length = 100, min_funding_amount = 0,
      max_funding_amount = 1000000000000000\<rparr>"

section \<open>Data frames\<close>

text \<open>
  A timestamp is a calendar date and the nanoseconds elapsed since midnight. Timestamps are
  compared field by field, most significant first, which is chronological order.
\<close>

record timestamp =
  year :: int
  month :: nat
  day :: nat
  nanos :: nat

definition ts_less :: "timestamp \<Rightarrow> timestamp \<Rightarrow> bool" where
  "ts_less a b \<longleftrightarrow>
     year a < year b \<or>
     (year a = year b \<and>
       (month a < month b \<or>
        (month a = month b \<and>
          (day a < day b \<or> (day a = day b \<and> nanos a < nanos b)))))"

text \<open>
  A cell of a frame: the missing marker (pandas' NaN, None and NaT are all "null" to
  \<^verbatim>\<open>isna\<close>), a string, a number or a timestamp. One \<^typ>\<open>char\<close> stands for one
  character of the Python string, so \<^const>\<open>length\<close> is Python's \<^verbatim>\<open>len\<close>.
\<close>

datatype cell = NaN | Str string | Num real | TS timestamp

datatype dtype = object | float64 | int64 | datetime64

type_synonym row = "(string \<times> cell) list"

record dataframe =
  columns :: "(string \<times> dtype) list"
  rows :: "row list"

datatype error =
    KeyError string
  | AttributeError
  | TypeError
  | ValueError
  | ZeroDivisionError
  | ExternalError

text \<open>Counts written to the log by the validation and cleaning steps.\<close>

datatype log_event =
    RemovedMissingNames nat
  | LongNames nat
  | InvalidFunding nat
  | TooOld string nat
  | TooNew string nat
  | InvalidDates string nat nat

definition has_column :: "dataframe \<Rightarrow> string \<Rightarrow> bool" where
  "has_column df c \<longleftrightarrow> c \<in> fst ` set (columns df)"

text \<open>
  \<^verbatim>\<open>read_csv\<close> delivers unique column labels, but renaming can make two labels equal.
  Selecting a duplicated label gives a frame instead of a column, and the column operations
  of this program raise on it.
\<close>

definition duplicated_label :: "dataframe \<Rightarrow> string \<Rightarrow> bool" where
  "duplicated_label df c \<longleftrightarrow> count_list (map fst (columns df)) c > 1"

text \<open>
  The invariant of the representation: every row has one cell per column label, in the
  order of the labels.
\<close>

definition wf_frame :: "dataframe \<Rightarrow> bool" where
  "wf_frame df \<longleftrightarrow> list_all (\<lambda>r. map fst r = map fst (columns df)) (rows df)"

definition dtype_of :: "dataframe \<Rightarrow> string \<Rightarrow> dtype" where
  "dtype_of df c = (case map_of (columns df) c of Some t \<Rightarrow> t | None \<Rightarrow> object)"

definition get_cell :: "row \<Rightarrow> string \<Rightarrow> cell" where
  "get_cell r c = (case map_of r c of Some v \<Rightarrow> v | None \<Rightarrow> NaN)"

definition set_cell :: "row \<Rightarrow> string \<Rightarrow> cell \<Rightarrow> row" where
  "set_cell r c v = map (\<lambda>(k, x). if k = c then (k, v) else (k, x)) r"

definition isna :: "cell \<Rightarrow> bool" where
  "isna v \<longleftrightarrow> v = NaN"

definition column_values :: "dataframe \<Rightarrow> string \<Rightarrow> cell list" where
  "column_values df c = map (\<lambda>r. get_cell r c) (rows df)"

text \<open>\<^verbatim>\<open>df[c] = f(df[c])\<close>, cell by cell, leaving the column with dtype \<open>t\<close>.\<close>

definition map_column :: "string \<Rightarrow> dtype \<Rightarrow> (cell \<Rightarrow> cell) \<Rightarrow> dataframe \<Rightarrow> dataframe" where
  "map_column c t f df =
     df\<lparr>columns := map (\<lambda>(k, d). if k = c then (k, t) else (k, d)) (columns df),
        rows := map (\<lambda>r. set_cell r c (f (get_cell r c))) (rows df)\<rparr>"

text \<open>\<^verbatim>\<open>df.loc[flags, c] = f(df.loc[flags, c])\<close> for a boolean mask \<open>flags\<close>, one flag per row.\<close>

definition loc_update :: "bool list \<Rightarrow> string \<Rightarrow> (cell \<Rightarrow> cell) \<Rightarrow> dataframe \<Rightarrow> dataframe" where
  "loc_update flags c f df =
     df\<lparr>rows := map (\<lambda>(m, r). if m then set_cell r c (f (get_cell r c)) else r)
                    (zip flags (rows df))\<rparr>"

definition mask_sum :: "bool list \<Rightarrow> nat" where
  "mask_sum flags = length (filter (\<lambda>m. m) flags)"

definition mask_any :: "bool list \<Rightarrow> bool" where
  "mask_any flags \<longleftrightarrow> True \<in> set flags"

text \<open>\<^verbatim>\<open>df.dropna(subset=[c])\<close>: a missing column is a KeyError.\<close>

definition dropna :: "string \<Rightarrow> dataframe \<Rightarrow> error + dataframe" where
  "dropna c df =
     (if \<not> has_column df c then Inl (KeyError c)
      else Inr (df\<lparr>rows := filter (\<lambda>r. \<not> isna (get_cell r c)) (rows df)\<rparr>))"

text \<open>\<^verbatim>\<open>df.iloc[a:b]\<close> for \<open>0 \<le> a\<close> and \<open>0 \<le> b\<close>.\<close>

definition iloc :: "dataframe \<Rightarrow> nat \<Rightarrow> nat \<Rightarrow> dataframe" where
  "iloc df a b = df\<lparr>rows := drop a (take b (rows df))\<rparr>"

subsection \<open>String methods\<close>

text \<open>
  The \<^verbatim>\<open>.str\<close> accessor exists only on a column of dtype object; on a numeric column
  pandas raises AttributeError. Its methods work element by element and give NaN on an
  element that is not a string.
\<close>

definition str_len_gt :: "cell \<Rightarrow> nat \<Rightarrow> bool" where
  "str_len_gt v n = (case v of Str s \<Rightarrow> length s > n | _ \<Rightarrow> False)"

definition str_slice_to :: "nat \<Rightarrow> cell \<Rightarrow> cell" where
  "str_slice_to n v = (case v of Str s \<Rightarrow> Str (take n s) | _ \<Rightarrow> NaN)"

text \<open>
  Python's \<^verbatim>\<open>str.strip()\<close> removes leading and trailing whitespace: of the characters
  below 256 these are 9 to 13, 28 to 32, 133 and 160.
\<close>

definition is_space :: "char \<Rightarrow> bool" where
  "is_space c \<longleftrightarrow>
     (let n = (of_char c :: nat) in (9 \<le> n \<and> n \<le> 13) \<or> (28 \<le> n \<and> n \<le> 32) \<or> n = 133 \<or> n = 160)"

definition strip :: "string \<Rightarrow> string" where
  "strip s = rev (dropWhile is_space (rev (dropWhile is_space s)))"

definition str_strip :: "cell \<Rightarrow> cell" where
  "str_strip v = (case v of Str s \<Rightarrow> Str (strip s) | _ \<Rightarrow> NaN)"

section \<open>The environment\<close>

text \<open>
  Everything outside the repository is a field of the environment: the file system, the
  database server, and the pandas conversions whose result depends on text parsing or
  number formatting. \<open>to_sql\<close> is one call of \<^verbatim>\<open>DataFrame.to_sql\<close> on the destination
  state: it returns the exception it raised, if any, and the destination afterwards.
  \<open>query_ok\<close> tells whether the verification queries run without raising.
  \<^verbatim>\<open>create_engine\<close> only builds a lazy handle and opens no connection; it is not modelled.
\<close>

record 'db env =
  csv_exists :: bool
  connection_ok :: bool
  database_ok :: bool
  read_csv :: "error + dataframe"
  to_datetime :: "cell \<Rightarrow> timestamp option"
  to_numeric :: "cell \<Rightarrow> real option"
  format_cell :: "cell \<Rightarrow> string"
  to_sql :: "'db \<Rightarrow> if_exists_mode \<Rightarrow> dataframe \<Rightarrow> error option \<times> 'db"
  query_ok :: "'db \<Rightarrow> bool"
  render_report :: "dataframe \<Rightarrow> string"
  report_writable :: bool

text \<open>
  The world a run acts on: the destination, the sequence of \<^verbatim>\<open>to_sql\<close> calls issued so
  far (mode and batch, in order), the report artifact and the logged counts.
\<close>

record 'db world =
  db :: 'db
  to_sql_calls :: "(if_exists_mode \<times> dataframe) list"
  report_file :: "string option"
  log :: "log_event list"

section \<open>validate_data\<close>

definition validate_name_length :: "dataframe \<Rightarrow> error + dataframe \<times> log_event list" where
  "validate_name_length df =
     (if has_column df ''name'' then
        (if duplicated_label df ''name'' \<or> dtype_of df ''name'' \<noteq> object
         then Inl AttributeError
         else
           let long_names = map (\<lambda>v. str_len_gt v (max_name_length VALIDATION_RULES))
                              (column_values df ''name'')
           in if mask_any long_names
              then Inr (loc_update long_names ''name''
                          (str_slice_to (max_name_length VALIDATION_RULES)) df,
                        [LongNames (mask_sum long_names)])
              else Inr (df, []))
      else Inr (df, []))"

text \<open>
  Comparing the funding column with a number raises TypeError as soon as one of its
  elements is a string (or a timestamp); NaN compares false.
\<close>

definition funding_comparable :: "cell \<Rightarrow> bool" where
  "funding_comparable v = (case v of NaN \<Rightarrow> True | Num _ \<Rightarrow> True | _ \<Rightarrow> False)"

definition invalid_funding_cell :: "cell \<Rightarrow> bool" where
  "invalid_funding_cell v =
     (case v of
        Num x \<Rightarrow> x < min_funding_amount VALIDATION_RULES \<or> x > max_funding_amount VALIDATION_RULES
      | _ \<Rightarrow> False)"

definition validate_funding :: "dataframe \<Rightarrow> error + dataframe \<times> log_event list" where
  "validate_funding df =
     (if has_column df ''funding_total_usd'' then
        (if duplicated_label df ''funding_total_usd'' then Inl ValueError
         else if \<not> list_all funding_comparable (column_values df ''funding_total_usd'')
         then Inl TypeError
         else
           let invalid_funding = map invalid_funding_cell (column_values df ''funding_total_usd'')
           in if mask_any invalid_funding
              then Inr (loc_update invalid_funding ''funding_total_usd'' (\<lambda>_. NaN) df,
                        [InvalidFunding (mask_sum invalid_funding)])
              else Inr (df, []))
      else Inr (df, []))"

definition validate_data :: "dataframe \<Rightarrow> error + dataframe \<times> log_event list" where
  "validate_data df =
     (let original_count = length (rows df) in
      case dropna ''name'' df of
        Inl e \<Rightarrow> Inl e
      | Inr df1 \<Rightarrow>
          (case validate_name_length df1 of
             Inl e \<Rightarrow> Inl e
           | Inr (df2, log2) \<Rightarrow>
               (case validate_funding df2 of
                  Inl e \<Rightarrow> Inl e
                | Inr (df3, log3) \<Rightarrow>
                    Inr (df3,
                         [RemovedMissingNames (original_count - length (rows df1))]
                           @ log2 @ log3))))"

text \<open>
  The counts \<^verbatim>\<open>validate_data\<close> has written to the log when it returns or raises. The
  number of removed rows is logged right after \<^verbatim>\<open>dropna\<close>; each of the two checks
  logs its count after the comparison that may raise, so a check that raises logs nothing.
\<close>

definition validate_data_log :: "dataframe \<Rightarrow> log_event list" where
  "validate_data_log df =
     (let original_count = length (rows df) in
      case dropna ''name'' df of
        Inl e \<Rightarrow> []
      | Inr df1 \<Rightarrow>
          RemovedMissingNames (original_count - length (rows df1)) #
          (case validate_name_length df1 of
             Inl e \<Rightarrow> []
           | Inr (df2, log2) \<Rightarrow>
               log2 @ (case validate_funding df2 of
                         Inl e \<Rightarrow> []
                       | Inr (df3, log3) \<Rightarrow> log3)))"

section \<open>clean_and_transform_data\<close>

definition rename_column :: "string \<Rightarrow> string" where
  "rename_column c = (case map_of COLUMN_MAPPING c of Some d \<Rightarrow> d | None \<Rightarrow> c)"

definition rename_columns :: "dataframe \<Rightarrow> dataframe" where
  "rename_columns df =
     \<lparr>columns = map (\<lambda>(c, t). (rename_column c, t)) (columns df),
      rows = map (map (\<lambda>(c, v). (rename_column c, v))) (rows df)\<rparr>"

definition sql_server_min_date :: timestamp where
  "sql_server_min_date = \<lparr>year = 1753, month = 1, day = 1, nanos = 0\<rparr>"

definition sql_server_max_date :: timestamp where
  "sql_server_max_date = \<lparr>year = 9999, month = 12, day = 31, nanos = 0\<rparr>"

definition to_datetime_cell :: "'db env \<Rightarrow> cell \<Rightarrow> cell" where
  "to_datetime_cell E v = (case to_datetime E v of Some t \<Rightarrow> TS t | None \<Rightarrow> NaN)"

definition to_numeric_cell :: "'db env \<Rightarrow> cell \<Rightarrow> cell" where
  "to_numeric_cell E v = (case to_numeric E v of Some x \<Rightarrow> Num x | None \<Rightarrow> NaN)"

definition too_old_cell :: "cell \<Rightarrow> bool" where
  "too_old_cell v = (case v of TS t \<Rightarrow> ts_less t sql_server_min_date | _ \<Rightarrow> False)"

definition too_new_cell :: "cell \<Rightarrow> bool" where
  "too_new_cell v = (case v of TS t \<Rightarrow> ts_less sql_server_max_date t | _ \<Rightarrow> False)"

text \<open>
  One round of the loop over the date columns. \<^verbatim>\<open>too_old\<close> and \<^verbatim>\<open>too_new\<close> are both
  computed before either assignment. The column keeps its timestamps: nothing takes the
  date part of a retained value.
\<close>

definition clean_date_column ::
  "'db env \<Rightarrow> string \<Rightarrow> dataframe \<times> log_event list \<Rightarrow> error + dataframe \<times> log_event list" where
  "clean_date_column E col st =
     (let (df, lg) = st in
      if has_column df col then
        if duplicated_label df col then Inl ValueError
        else
          let df1 = map_column col datetime64 (to_datetime_cell E) df;
              invalid_before = mask_sum (map isna (column_values df1 col));
              (df4, lg4) =
                (if mask_any (map (\<lambda>v. \<not> isna v) (column_values df1 col)) then
                   let too_old = map too_old_cell (column_values df1 col);
                       too_new = map too_new_cell (column_values df1 col);
                       (df2, lg2) =
                         (if mask_any too_old
                          then (loc_update too_old col (\<lambda>_. NaN) df1,
                                [TooOld col (mask_sum too_old)])
                          else (df1, []));
                       (df3, lg3) =
                         (if mask_any too_new
                          then (loc_update too_new col (\<lambda>_. NaN) df2,
                                [TooNew col (mask_sum too_new)])
                          else (df2, []))
                   in (df3, lg2 @ lg3)
                 else (df1, []));
              invalid_after = mask_sum (map isna (column_values df4 col))
          in Inr (df4, lg @ lg4 @ [InvalidDates col invalid_before invalid_after])
      else Inr (df, lg))"

definition clean_numeric_column :: "'db env \<Rightarrow> string \<Rightarrow> dataframe \<Rightarrow> error + dataframe" where
  "clean_numeric_column E col df =
     (if has_column df col then
        if duplicated_label df col then Inl TypeError
        else Inr (map_column col float64 (to_numeric_cell E) df)
      else Inr df)"

text \<open>
  \<^verbatim>\<open>astype(str)\<close> leaves a string as it is and turns the missing marker into the text
  \<^verbatim>\<open>nan\<close>; how a number or a timestamp is printed is the environment's \<open>format_cell\<close>.
\<close>

definition astype_str :: "'db env \<Rightarrow> cell \<Rightarrow> cell" where
  "astype_str E v = (case v of Str s \<Rightarrow> Str s | NaN \<Rightarrow> Str ''nan'' | _ \<Rightarrow> Str (format_cell E v))"

definition replace_nan :: "cell \<Rightarrow> cell" where
  "replace_nan v = (if v = Str ''nan'' then NaN else v)"

definition clean_string_column :: "'db env \<Rightarrow> string \<Rightarrow> dataframe \<Rightarrow> error + dataframe" where
  "clean_string_column E col df =
     (if has_column df col then
        if duplicated_label df col then Inl AttributeError
        else
          Inr (map_column col object str_strip
                (map_column col object replace_nan
                  (map_column col object (astype_str E) df)))
      else Inr df)"

definition date_columns :: "string list" where
  "date_columns = [''FoundedAt'', ''FirstFundingAt'', ''LastFundingAt'']"

definition numeric_columns :: "string list" where
  "numeric_columns = [''FundingTotalUSD'', ''FundingRounds'']"

definition string_columns :: "string list" where
  "string_columns =
     [''Name'', ''HomepageURL'', ''CategoryList'', ''Status'', ''CountryCode'', ''StateCode'',
      ''City'']"

text \<open>A \<^verbatim>\<open>for\<close> loop whose body may raise: the first exception ends it.\<close>

fun for_each :: "('c \<Rightarrow> 's \<Rightarrow> error + 's) \<Rightarrow> 'c list \<Rightarrow> 's \<Rightarrow> error + 's" where
  "for_each f [] s = Inr s"
| "for_each f (c # cs) s = (case f c s of Inl e \<Rightarrow> Inl e | Inr s' \<Rightarrow> for_each f cs s')"

definition clean_and_transform_data ::
  "'db env \<Rightarrow> dataframe \<Rightarrow> error + dataframe \<times> log_event list" where
  "clean_and_transform_data E df =
     (case for_each (clean_date_column E) date_columns (rename_columns df, []) of
        Inl e \<Rightarrow> Inl e
      | Inr (df2, lg) \<Rightarrow>
          (case for_each (clean_numeric_column E) numeric_columns df2 of
             Inl e \<Rightarrow> Inl e
           | Inr df3 \<Rightarrow>
               (case for_each (clean_string_column E) string_columns df3 of
                  Inl e \<Rightarrow> Inl e
                | Inr df4 \<Rightarrow> Inr (df4, lg))))"

text \<open>
  The counts \<^verbatim>\<open>clean_and_transform_data\<close> has written to the log when it returns or
  raises. Only the loop over the date columns logs counts: when a date column raises, the
  log holds the counts of the columns before it, and the two later loops add none.
\<close>

fun clean_dates_log ::
  "'db env \<Rightarrow> string list \<Rightarrow> dataframe \<times> log_event list \<Rightarrow> log_event list" where
  "clean_dates_log E [] st = snd st"
| "clean_dates_log E (col # cols) st =
     (case clean_date_column E col st of
        Inl e \<Rightarrow> snd st
      | Inr st' \<Rightarrow> clean_dates_log E cols st')"

definition clean_and_transform_data_log :: "'db env \<Rightarrow> dataframe \<Rightarrow> log_event list" where
  "clean_and_transform_data_log E df = clean_dates_log E date_columns (rename_columns df, [])"

section \<open>migrate_data_to_sql\<close>

text \<open>\<^verbatim>\<open>range(start, stop, step)\<close> for a positive step.\<close>

function py_range :: "nat \<Rightarrow> nat \<Rightarrow> nat \<Rightarrow> nat list" where
  "py_range start stop step =
     (if 0 < step \<and> start < stop then start # py_range (start + step) stop step else [])"
  by pat_completeness auto
termination
  by (relation "measure (\<lambda>(start, stop, step). stop - start)") auto

text \<open>One call of \<^verbatim>\<open>to_sql\<close>: it is recorded, and the destination takes its effect.\<close>

definition call_to_sql ::
  "'db env \<Rightarrow> if_exists_mode \<Rightarrow> dataframe \<Rightarrow> 'db world \<Rightarrow> error option \<times> 'db world" where
  "call_to_sql E mode chunk_df w =
     (let (res, d) = to_sql E (db w) mode chunk_df
      in (res, w\<lparr>db := d, to_sql_calls := to_sql_calls w @ [(mode, chunk_df)]\<rparr>))"

text \<open>
  The body of the loop over \<^verbatim>\<open>enumerate(range(0, len(df), chunk_size))\<close>. An exception
  of \<^verbatim>\<open>to_sql\<close> leaves the loop for the handler, which returns False.
\<close>

fun write_chunks ::
  "'db env \<Rightarrow> migration_config \<Rightarrow> dataframe \<Rightarrow> (nat \<times> nat) list \<Rightarrow> 'db world \<Rightarrow> bool \<times> 'db world" where
  "write_chunks E cfg df [] w = (True, w)"
| "write_chunks E cfg df ((i, chunk_start) # rest) w =
     (let chunk_end = min (chunk_start + chunksize cfg) (length (rows df));
          chunk_df = iloc df chunk_start chunk_end
      in case call_to_sql E (if i > 0 then Append else if_exists cfg) chunk_df w of
           (Some e, w') \<Rightarrow> (False, w')
         | (None, w') \<Rightarrow> write_chunks E cfg df rest w')"

text \<open>
  \<^verbatim>\<open>total_chunks = (len(df) + chunk_size - 1) // chunk_size\<close> is computed before the loop
  and divides by the chunk size: a chunk size of zero raises ZeroDivisionError inside the
  \<^verbatim>\<open>try\<close>, so the function returns False without writing.
\<close>

definition migrate_data_to_sql ::
  "'db env \<Rightarrow> migration_config \<Rightarrow> dataframe \<Rightarrow> 'db world \<Rightarrow> bool \<times> 'db world" where
  "migrate_data_to_sql E cfg df w =
     (let chunk_size = chunksize cfg in
      if chunk_size = 0 then (False, w)
      else write_chunks E cfg df
             (enumerate 0 (py_range 0 (length (rows df)) chunk_size)) w)"

section \<open>verify_migration, generate_summary_report and main\<close>

definition test_connection :: "'db env \<Rightarrow> bool" where
  "test_connection E = connection_ok E"

definition create_database_if_not_exists :: "'db env \<Rightarrow> bool" where
  "create_database_if_not_exists E = database_ok E"

definition verify_migration :: "'db env \<Rightarrow> 'db world \<Rightarrow> bool" where
  "verify_migration E w = query_ok E (db w)"

text \<open>
  The report reads the columns Name, FundingTotalUSD, CountryCode and CategoryList by
  name, in this order; a column that is not there is a KeyError. The text itself is the
  environment's \<open>render_report\<close>. Opening or writing the report file may raise.
\<close>

definition report_columns :: "string list" where
  "report_columns = [''Name'', ''FundingTotalUSD'', ''CountryCode'', ''CategoryList'']"

definition generate_summary_report :: "'db env \<Rightarrow> dataframe \<Rightarrow> 'db world \<Rightarrow> error + 'db world" where
  "generate_summary_report E df w =
     (case filter (\<lambda>c. \<not> has_column df c) report_columns of
        c # _ \<Rightarrow> Inl (KeyError c)
      | [] \<Rightarrow>
          if report_writable E then Inr (w\<lparr>report_file := Some (render_report E df)\<rparr>)
          else Inl ExternalError)"

text \<open>
  The driver. Every exception raised between loading and reporting is caught by the
  handler at the end of \<^verbatim>\<open>main\<close>, which returns False; what validation and cleaning
  logged before they raised stays in the log.
\<close>

definition main :: "'db env \<Rightarrow> migration_config \<Rightarrow> 'db world \<Rightarrow> bool \<times> 'db world" where
  "main E cfg w =
     (if \<not> csv_exists E then (False, w)
      else if \<not> test_connection E then (False, w)
      else if \<not> create_database_if_not_exists E then (False, w)
      else
        (case read_csv E of
           Inl e \<Rightarrow> (False, w)
         | Inr df0 \<Rightarrow>
             (case validate_data df0 of
                Inl e \<Rightarrow> (False, w\<lparr>log := log w @ validate_data_log df0\<rparr>)
              | Inr (df1, lg1) \<Rightarrow>
                  (case clean_and_transform_data E df1 of
                     Inl e \<Rightarrow>
                       (False, w\<lparr>log := log w @ lg1 @ clean_and_transform_data_log E df1\<rparr>)
                   | Inr (df, lg2) \<Rightarrow>
                       (case migrate_data_to_sql E cfg df (w\<lparr>log := log w @ lg1 @ lg2\<rparr>) of
                          (False, w2) \<Rightarrow> (False, w2)
                        | (True, w2) \<Rightarrow>
                            (if \<not> verify_migration E w2 then (False, w2)
                             else
                               (case generate_summary_report E df w2 of
                                  Inl e \<Rightarrow> (False, w2)
                                | Inr w3 \<Rightarrow> (True, w3))))))))"

section \<open>Notions used to state the properties\<close>

text \<open>
  The call the loop body issues for the pair \<open>(i, chunk_start)\<close>, and the calls of a whole
  run in which no write fails.
\<close>

definition call_of :: "migration_config \<Rightarrow> dataframe \<Rightarrow> nat \<times> nat \<Rightarrow> if_exists_mode \<times> dataframe" where
  "call_of cfg df p =
     (if fst p > 0 then Append else if_exists cfg,
      iloc df (snd p) (min (snd p + chunksize cfg) (length (rows df))))"

definition planned_calls :: "migration_config \<Rightarrow> dataframe \<Rightarrow> (if_exists_mode \<times> dataframe) list" where
  "planned_calls cfg df =
     map (call_of cfg df) (enumerate 0 (py_range 0 (length (rows df)) (chunksize cfg)))"

text \<open>
  The destination after the given writes, each applied to what the one before left, when
  every one of them completes; \<open>None\<close> when one of them fails.
\<close>

fun commit_all :: "'db env \<Rightarrow> 'db \<Rightarrow> (if_exists_mode \<times> dataframe) list \<Rightarrow> 'db option" where
  "commit_all E d [] = Some d"
| "commit_all E d ((mode, chunk_df) # cs) =
     (case to_sql E d mode chunk_df of
        (None, d') \<Rightarrow> commit_all E d' cs
      | (Some e, d') \<Rightarrow> None)"

text \<open>
  The destination after the given writes, each applied to what the one before left,
  whether or not they complete.
\<close>

definition destination_after :: "'db env \<Rightarrow> 'db \<Rightarrow> (if_exists_mode \<times> dataframe) list \<Rightarrow> 'db" where
  "destination_after E d calls = foldl (\<lambda>d c. snd (to_sql E d (fst c) (snd c))) d calls"

text \<open>
  The destination when the mode \<open>mode\<close> acts once, on the destination as it was found,
  with the first batch, and every later batch is appended to what the write before it left.
\<close>

definition first_then_append :: "'db env \<Rightarrow> if_exists_mode \<Rightarrow> 'db \<Rightarrow> dataframe list \<Rightarrow> 'db" where
  "first_then_append E mode d batches =
     (case batches of
        [] \<Rightarrow> d
      | b # bs \<Rightarrow> foldl (\<lambda>d c. snd (to_sql E d Append c)) (snd (to_sql E d mode b)) bs)"

text \<open>
  The steps of \<open>main\<close> before the write: the frame handed to the writer and the world at
  that point, when the run gets that far.
\<close>

definition prepared :: "'db env \<Rightarrow> 'db world \<Rightarrow> (dataframe \<times> 'db world) option" where
  "prepared E w =
     (if csv_exists E \<and> test_connection E \<and> create_database_if_not_exists E then
        (case read_csv E of
           Inl e \<Rightarrow> None
         | Inr df0 \<Rightarrow>
             (case validate_data df0 of
                Inl e \<Rightarrow> None
              | Inr (df1, lg1) \<Rightarrow>
                  (case clean_and_transform_data E df1 of
                     Inl e \<Rightarrow> None
                   | Inr (df, lg2) \<Rightarrow> Some (df, w\<lparr>log := log w @ lg1 @ lg2\<rparr>))))
      else None)"

text \<open>The column labels of a frame, in order.\<close>

definition labels :: "dataframe \<Rightarrow> string list" where
  "labels df = map fst (columns df)"

text \<open>
  What the range check leaves of a source cell of a date column: null when the cell does
  not parse or the parsed timestamp lies outside the range of the destination, and
  otherwise the parsed timestamp, unchanged.
\<close>

definition clamp_date :: "'db env \<Rightarrow> cell \<Rightarrow> cell" where
  "clamp_date E v =
     (case to_datetime E v of
        None \<Rightarrow> NaN
      | Some t \<Rightarrow>
          if ts_less t sql_server_min_date \<or> ts_less sql_server_max_date t then NaN else TS t)"

text \<open>What a frame keeps while other columns are cleaned.\<close>

definition same_column :: "dataframe \<Rightarrow> string \<Rightarrow> dataframe \<Rightarrow> bool" where
  "same_column df col df' \<longleftrightarrow>
     wf_frame df' \<and> labels df' = labels df \<and> length (rows df') = length (rows df)
     \<and> column_values df' col = column_values df col"

subsection \<open>An example destination\<close>

text \<open>
  A destination for the examples: the table is absent or holds rows. A write in mode
  \<open>Fail\<close> raises when the table exists, \<open>Replace\<close> starts from an empty table and
  \<open>Append\<close> from the present rows; a write that would leave more than \<open>cap\<close> rows raises
  and changes nothing.
\<close>

definition example_to_sql ::
  "nat \<Rightarrow> row list option \<Rightarrow> if_exists_mode \<Rightarrow> dataframe \<Rightarrow> error option \<times> row list option" where
  "example_to_sql cap t mode chunk_df =
     (if mode = Fail \<and> t \<noteq> None then (Some ValueError, t)
      else
        let base = (if mode = Replace then [] else (case t of None \<Rightarrow> [] | Some old \<Rightarrow> old));
            new = base @ rows chunk_df
        in if length new > cap then (Some ExternalError, t) else (None, Some new))"

text \<open>
  The verification queries of the example destination: the count and the sample query,
  which selects the columns Name, CategoryList, FundingTotalUSD, CountryCode and Status.
  They run when the server can be reached at that point, the table exists and its rows
  have these columns.
\<close>

definition sample_columns :: "string list" where
  "sample_columns = [''Name'', ''CategoryList'', ''FundingTotalUSD'', ''CountryCode'', ''Status'']"

definition example_query_ok :: "bool \<Rightarrow> row list option \<Rightarrow> bool" where
  "example_query_ok reachable t =
     (reachable \<and>
      (case t of
         None \<Rightarrow> False
       | Some rs \<Rightarrow> list_all (\<lambda>r. list_all (\<lambda>c. c \<in> set (map fst r)) sample_columns) rs))"

definition example_frame :: "string list \<Rightarrow> dataframe" where
  "example_frame names =
     \<lparr>columns = [(''name'', object), (''funding_total_usd'', float64), (''country_code'', object),
                 (''category_list'', object), (''status'', object)],
      rows = map (\<lambda>n. [(''name'', Str n), (''funding_total_usd'', Num 5),
                        (''country_code'', Str ''SE''), (''category_list'', Str ''Software''),
                        (''status'', Str ''operating'')])
               names\<rparr>"

definition example_env :: "nat \<Rightarrow> dataframe \<Rightarrow> bool \<Rightarrow> bool \<Rightarrow> (row list option) env" where
  "example_env cap df reachable writable =
     \<lparr>csv_exists = True, connection_ok = True, database_ok = True, read_csv = Inr df,
      to_datetime = (\<lambda>_. None), to_numeric = (\<lambda>v. case v of Num x \<Rightarrow> Some x | _ \<Rightarrow> None),
      format_cell = (\<lambda>_. ''?''), to_sql = example_to_sql cap,
      query_ok = example_query_ok reachable,
      render_report = (\<lambda>_. ''report''), report_writable = writable\<rparr>"

definition example_world :: "row list option \<Rightarrow> (row list option) world" where
  "example_world t = \<lparr>db = t, to_sql_calls = [], report_file = None, log = []\<rparr>"

definition example_config :: "nat \<Rightarrow> if_exists_mode \<Rightarrow> migration_config" where
  "example_config b m = MIGRATION_CONFIG\<lparr>chunksize := b, if_exists := m\<rparr>"

definition five_rows :: dataframe where
  "five_rows = example_frame [''a'', ''b'', ''c'', ''d'', ''e'']"

text \<open>What validation and cleaning make of \<open>five_rows\<close>, and the world when the writer starts.\<close>

definition five_rows_clean :: dataframe where
  "five_rows_clean =
     \<lparr>columns = [(''Name'', object), (''FundingTotalUSD'', float64), (''CountryCode'', object),
                 (''CategoryList'', object), (''Status'', object)],
      rows = map (\<lambda>n. [(''Name'', Str n), (''FundingTotalUSD'', Num 5),
                        (''CountryCode'', Str ''SE''), (''CategoryList'', Str ''Software''),
                        (''Status'', Str ''operating'')])
               [''a'', ''b'', ''c'', ''d'', ''e'']\<rparr>"

definition started_world :: "(row list option) world" where
  "started_world = (example_world None)\<lparr>log := [RemovedMissingNames 0]\<rparr>"

text \<open>A table found at the destination before the run.\<close>

definition old_rows :: "row list" where
  "old_rows =
     [[(''Name'', Str ''z''), (''FundingTotalUSD'', Num 1), (''CountryCode'', Str ''NO''),
       (''CategoryList'', Str ''Games''), (''Status'', Str ''closed'')]]"

text \<open>Frames and an environment for the examples of validation and cleaning.\<close>

definition long_url_frame :: dataframe where
  "long_url_frame =
     \<lparr>columns = [(''name'', object), (''homepage_url'', object)],
      rows = [[(''name'', Str ''a''), (''homepage_url'', Str (replicate 501 (CHR ''x'')))]]\<rparr>"

definition blank_name_frame :: dataframe where
  "blank_name_frame =
     \<lparr>columns = [(''name'', object), (''country_code'', object)],
      rows = [[(''name'', Str ''   ''), (''country_code'', Str ''SE'')],
              [(''name'', NaN), (''country_code'', Str ''NO'')]]\<rparr>"

definition nameless_frame :: dataframe where
  "nameless_frame =
     \<lparr>columns = [(''funding_total_usd'', float64), (''country_code'', object),
                 (''category_list'', object)],
      rows = [[(''funding_total_usd'', Num 5), (''country_code'', Str ''SE''),
               (''category_list'', Str ''Software'')]]\<rparr>"

definition numeric_name_frame :: dataframe where
  "numeric_name_frame =
     \<lparr>columns = [(''name'', float64)],
      rows = [[(''name'', Num 1)], [(''name'', NaN)]]\<rparr>"

definition no_country_frame :: dataframe where
  "no_country_frame =
     \<lparr>columns = [(''name'', object), (''funding_total_usd'', float64), (''category_list'', object),
                 (''status'', object)],
      rows = [[(''name'', Str ''a''), (''funding_total_usd'', Num 5),
               (''category_list'', Str ''Software''), (''status'', Str ''operating'')]]\<rparr>"

definition no_country_clean :: dataframe where
  "no_country_clean =
     \<lparr>columns = [(''Name'', object), (''FundingTotalUSD'', float64), (''CategoryList'', object),
                 (''Status'', object)],
      rows = [[(''Name'', Str ''a''), (''FundingTotalUSD'', Num 5),
               (''CategoryList'', Str ''Software''), (''Status'', Str ''operating'')]]\<rparr>"

definition example_to_datetime :: "cell \<Rightarrow> timestamp option" where
  "example_to_datetime v =
     (if v = Str ''2000-01-01 00:00:00.000000500''
      then Some \<lparr>year = 2000, month = 1, day = 1, nanos = 500\<rparr>
      else if v = Str ''1700-01-01'' then Some \<lparr>year = 1700, month = 1, day = 1, nanos = 0\<rparr>
      else if v = Str ''9999-12-31 00:00:00.000000001''
      then Some \<lparr>year = 9999, month = 12, day = 31, nanos = 1\<rparr>
      else None)"

definition dated_frame :: dataframe where
  "dated_frame =
     \<lparr>columns = [(''name'', object), (''founded_at'', object)],
      rows = [[(''name'', Str ''a''), (''founded_at'', Str ''2000-01-01 00:00:00.000000500'')],
              [(''name'', Str ''b''), (''founded_at'', Str ''1700-01-01'')],
              [(''name'', Str ''c''), (''founded_at'', Str ''9999-12-31 00:00:00.000000001'')],
              [(''name'', Str ''d''), (''founded_at'', Str ''soon'')]]\<rparr>"

definition dated_env :: "(row list option) env" where
  "dated_env = (example_env 100 dated_frame True True)\<lparr>to_datetime := example_to_datetime\<rparr>"

definition blank_name_kept :: dataframe where
  "blank_name_kept =
     \<lparr>columns = [(''name'', object), (''country_code'', object)],
      rows = [[(''name'', Str ''   ''), (''country_code'', Str ''SE'')]]\<rparr>"

definition blank_name_clean :: dataframe where
  "blank_name_clean =
     \<lparr>columns = [(''Name'', object), (''CountryCode'', object)],
      rows = [[(''Name'', Str []), (''CountryCode'', Str ''SE'')]]\<rparr>"

definition dated_clean :: dataframe where
  "dated_clean =
     \<lparr>columns = [(''Name'', object), (''FoundedAt'', datetime64)],
      rows = [[(''Name'', Str ''a''),
               (''FoundedAt'', TS \<lparr>year = 2000, month = 1, day = 1, nanos = 500\<rparr>)],
              [(''Name'', Str ''b''), (''FoundedAt'', NaN)],
              [(''Name'', Str ''c''), (''FoundedAt'', NaN)],
              [(''Name'', Str ''d''), (''FoundedAt'', NaN)]]\<rparr>"

definition long_name_frame :: dataframe where
  "long_name_frame =
     \<lparr>columns = [(''name'', object)],
      rows = [[(''name'', Str (replicate 300 (CHR ''y'')))]]\<rparr>"

definition long_name_kept :: dataframe where
  "long_name_kept =
     \<lparr>columns = [(''name'', object)],
      rows = [[(''name'', Str (replicate 255 (CHR ''y'')))]]\<rparr>"

definition long_name_clean :: dataframe where
  "long_name_clean =
     \<lparr>columns = [(''Name'', object)],
      rows = [[(''Name'', Str (replicate 255 (CHR ''y'')))]]\<rparr>"

section \<open>The chunked writer\<close>

declare py_range.simps [simp del]

lemma div_add_step: "0 < (b::nat) \<Longrightarrow> (a + b) div b = Suc (a div b)"
  by simp

lemma py_range_length:
  "0 < step \<Longrightarrow> length (py_range start stop step) = (stop - start + step - 1) div step"
proof (induction start stop step rule: py_range.induct)
  case (1 start stop step)
  show ?case
  proof (cases "start < stop")
    case True
    show ?thesis
    proof (cases "stop - start \<le> step")
      case le: True
      then have a: "\<not> start + step < stop" by simp
      have "(stop - start + step - 1) div step = 1"
        using True le 1(2) by (intro div_nat_eqI) auto
      then show ?thesis using True 1(2) a
        by (simp add: py_range.simps[of start] py_range.simps[of "start + step"])
    next
      case gt: False
      then have e: "stop - start + step - 1 = (stop - (start + step) + step - 1) + step" by simp
      have "(stop - start + step - 1) div step = Suc ((stop - (start + step) + step - 1) div step)"
        unfolding e using 1(2) by (rule div_add_step)
      moreover have "length (py_range (start + step) stop step) = (stop - (start + step) + step - 1) div step"
        using 1 True by simp
      ultimately show ?thesis using True 1(2)
        by (simp add: py_range.simps[of start])
    qed
  next
    case False
    then show ?thesis using 1 by (simp add: py_range.simps[of start])
  qed
qed

lemma slice_step: "drop a (take (min (a + k) (length xs)) xs) @ drop (a + k) xs = drop a xs"
proof -
  have "take k (drop a xs) @ drop k (drop a xs) = drop a xs"
    by (rule append_take_drop_id)
  then show ?thesis
    by (simp add: min_def drop_take ac_simps)
qed

lemma slice_take_drop: "drop a (take (min (a + k) (length xs)) xs) = take k (drop a xs)"
  by (simp add: min_def drop_take)

lemma py_range_concat:
  "0 < step \<Longrightarrow>
   concat (map (\<lambda>a. drop a (take (min (a + step) (length xs)) xs)) (py_range start (length xs) step))
     = drop start xs"
proof (induction start "length xs" step rule: py_range.induct)
  case (1 start step)
  show ?case
  proof (cases "start < length xs")
    case True
    then show ?thesis using 1 slice_step[of start step xs]
      by (simp add: py_range.simps[of start])
  next
    case False
    then show ?thesis using 1 by (simp add: py_range.simps[of start])
  qed
qed

lemma py_range_nth:
  "0 < step \<Longrightarrow> i < length (py_range start stop step) \<Longrightarrow>
   py_range start stop step ! i = start + i * step"
proof (induction start stop step arbitrary: i rule: py_range.induct)
  case (1 start stop step)
  then show ?case
    by (cases i) (auto simp: py_range.simps[of start] split: if_splits)
qed

lemma py_range_bound: "a \<in> set (py_range start stop step) \<Longrightarrow> a < stop"
proof (induction start stop step rule: py_range.induct)
  case (1 start stop step)
  then show ?case
    by (auto simp: py_range.simps[of start] split: if_splits)
qed

lemma commit_all_step:
  "commit_all E d (c # cs) =
     (case to_sql E d (fst c) (snd c) of (None, d') \<Rightarrow> commit_all E d' cs | (Some e, d') \<Rightarrow> None)"
  by (cases c) simp

lemma write_chunks_step:
  "write_chunks E cfg df (p # ps) w =
     (case to_sql E (db w) (fst (call_of cfg df p)) (snd (call_of cfg df p)) of
        (Some e, d') \<Rightarrow>
          (False, w\<lparr>db := d', to_sql_calls := to_sql_calls w @ [call_of cfg df p]\<rparr>)
      | (None, d') \<Rightarrow>
          write_chunks E cfg df ps
            (w\<lparr>db := d', to_sql_calls := to_sql_calls w @ [call_of cfg df p]\<rparr>))"
  by (cases p) (simp add: call_of_def call_to_sql_def Let_def split: prod.splits option.splits)

lemma write_chunks_completes:
  "commit_all E (db w) (map (call_of cfg df) ps) = Some d \<Longrightarrow>
   write_chunks E cfg df ps w =
     (True, w\<lparr>db := d, to_sql_calls := to_sql_calls w @ map (call_of cfg df) ps\<rparr>)"
proof (induction ps arbitrary: w)
  case Nil
  then show ?case by simp
next
  case (Cons p ps)
  obtain res d1 where r: "to_sql E (db w) (fst (call_of cfg df p)) (snd (call_of cfg df p)) = (res, d1)"
    by (cases "to_sql E (db w) (fst (call_of cfg df p)) (snd (call_of cfg df p))")
  with Cons.prems have res: "res = None" and c: "commit_all E d1 (map (call_of cfg df) ps) = Some d"
    by (auto simp: commit_all_step simp del: commit_all.simps split: option.splits)
  let ?w1 = "w\<lparr>db := d1, to_sql_calls := to_sql_calls w @ [call_of cfg df p]\<rparr>"
  have "write_chunks E cfg df (p # ps) w = write_chunks E cfg df ps ?w1"
    using r res by (simp add: write_chunks_step del: write_chunks.simps)
  also have "\<dots> = (True, ?w1\<lparr>db := d, to_sql_calls := to_sql_calls ?w1 @ map (call_of cfg df) ps\<rparr>)"
    using c by (intro Cons.IH) simp
  finally show ?case by simp
qed

lemma write_chunks_aborts:
  "commit_all E (db w) (map (call_of cfg df) pre) = Some d \<Longrightarrow>
   to_sql E d (fst (call_of cfg df p)) (snd (call_of cfg df p)) = (Some e, d') \<Longrightarrow>
   write_chunks E cfg df (pre @ p # post) w =
     (False, w\<lparr>db := d', to_sql_calls := to_sql_calls w @ map (call_of cfg df) (pre @ [p])\<rparr>)"
proof (induction pre arbitrary: w)
  case Nil
  then show ?case
    by (simp add: write_chunks_step del: write_chunks.simps)
next
  case (Cons q pre)
  obtain res d1 where r: "to_sql E (db w) (fst (call_of cfg df q)) (snd (call_of cfg df q)) = (res, d1)"
    by (cases "to_sql E (db w) (fst (call_of cfg df q)) (snd (call_of cfg df q))")
  with Cons.prems(1) have res: "res = None" and c: "commit_all E d1 (map (call_of cfg df) pre) = Some d"
    by (auto simp: commit_all_step simp del: commit_all.simps split: option.splits)
  let ?w1 = "w\<lparr>db := d1, to_sql_calls := to_sql_calls w @ [call_of cfg df q]\<rparr>"
  have "write_chunks E cfg df ((q # pre) @ p # post) w = write_chunks E cfg df (pre @ p # post) ?w1"
    using r res by (simp add: write_chunks_step del: write_chunks.simps)
  also have "\<dots> = (False, ?w1\<lparr>db := d', to_sql_calls := to_sql_calls ?w1 @ map (call_of cfg df) (pre @ [p])\<rparr>)"
    using c Cons.prems(2) by (intro Cons.IH) simp_all
  finally show ?case by simp
qed

lemma write_chunks_issued:
  "write_chunks E cfg df ps w = (ok, w') \<Longrightarrow>
   \<exists>k\<le>length ps. to_sql_calls w' = to_sql_calls w @ map (call_of cfg df) (take k ps)
      \<and> (ok \<longrightarrow> k = length ps \<and> commit_all E (db w) (map (call_of cfg df) ps) = Some (db w')
                \<and> report_file w' = report_file w \<and> log w' = log w)"
proof (induction ps arbitrary: w)
  case Nil
  then show ?case by auto
next
  case (Cons p ps)
  obtain res d1 where r: "to_sql E (db w) (fst (call_of cfg df p)) (snd (call_of cfg df p)) = (res, d1)"
    by (cases "to_sql E (db w) (fst (call_of cfg df p)) (snd (call_of cfg df p))")
  let ?w1 = "w\<lparr>db := d1, to_sql_calls := to_sql_calls w @ [call_of cfg df p]\<rparr>"
  show ?case
  proof (cases res)
    case None
    then have "write_chunks E cfg df (p # ps) w = write_chunks E cfg df ps ?w1"
      using r by (simp add: write_chunks_step del: write_chunks.simps)
    with Cons.prems have "write_chunks E cfg df ps ?w1 = (ok, w')" by simp
    from Cons.IH[OF this] obtain k where k: "k \<le> length ps"
      "to_sql_calls w' = to_sql_calls ?w1 @ map (call_of cfg df) (take k ps)"
      "ok \<longrightarrow> k = length ps \<and> commit_all E (db ?w1) (map (call_of cfg df) ps) = Some (db w')
                \<and> report_file w' = report_file ?w1 \<and> log w' = log ?w1"
      by blast
    have "commit_all E (db w) (map (call_of cfg df) (p # ps)) = commit_all E d1 (map (call_of cfg df) ps)"
      using r None by (simp add: commit_all_step del: commit_all.simps)
    with k show ?thesis
      by (intro exI[of _ "Suc k"]) auto
  next
    case (Some e)
    then have "write_chunks E cfg df (p # ps) w = (False, ?w1)"
      using r by (simp add: write_chunks_step del: write_chunks.simps)
    with Cons.prems have "ok = False" "w' = ?w1" by simp_all
    then show ?thesis
      by (intro exI[of _ "Suc 0"]) auto
  qed
qed

lemma planned_calls_length:
  "0 < chunksize cfg \<Longrightarrow>
   length (planned_calls cfg df) = (length (rows df) + chunksize cfg - 1) div chunksize cfg"
  by (simp add: planned_calls_def py_range_length)

lemma planned_calls_nth:
  assumes "i < length (planned_calls cfg df)"
  shows "planned_calls cfg df ! i =
           (if i = 0 then if_exists cfg else Append,
            df\<lparr>rows := take (chunksize cfg) (drop (i * chunksize cfg) (rows df))\<rparr>)"
proof -
  let ?r = "py_range 0 (length (rows df)) (chunksize cfg)"
  from assms have i: "i < length ?r" by (simp add: planned_calls_def)
  then have pos: "0 < chunksize cfg"
    by (cases "chunksize cfg = 0") (auto simp: py_range.simps[of 0 _ 0])
  have "?r ! i = i * chunksize cfg"
    using py_range_nth[OF pos i] by simp
  then have "planned_calls cfg df ! i = call_of cfg df (i, i * chunksize cfg)"
    using i by (simp add: planned_calls_def nth_enumerate_eq)
  then show ?thesis
    by (simp add: call_of_def iloc_def slice_take_drop)
qed

lemma map_snd_enumerate_fun: "map (\<lambda>p. g (snd p)) (enumerate n xs) = map g xs"
proof -
  have "map (\<lambda>p. g (snd p)) (enumerate n xs) = map g (map snd (enumerate n xs))"
    by (simp only: map_map comp_def)
  then show ?thesis by simp
qed

lemma planned_calls_rows:
  assumes "0 < chunksize cfg"
  shows "concat (map (\<lambda>c. rows (snd c)) (planned_calls cfg df)) = rows df"
proof -
  let ?g = "\<lambda>a. drop a (take (min (a + chunksize cfg) (length (rows df))) (rows df))"
  let ?r = "py_range 0 (length (rows df)) (chunksize cfg)"
  have "map (\<lambda>c. rows (snd c)) (planned_calls cfg df) = map (\<lambda>p. ?g (snd p)) (enumerate 0 ?r)"
    by (simp add: planned_calls_def call_of_def iloc_def comp_def)
  also have "\<dots> = map ?g ?r"
    by (rule map_snd_enumerate_fun)
  finally show ?thesis
    using py_range_concat[OF assms, of "rows df" 0] by simp
qed

lemma migrate_issued:
  assumes "migrate_data_to_sql E cfg df w = (ok, w')"
  shows "\<exists>k\<le>length (planned_calls cfg df).
           to_sql_calls w' = to_sql_calls w @ take k (planned_calls cfg df)
           \<and> (ok \<longrightarrow> k = length (planned_calls cfg df)
                  \<and> commit_all E (db w) (planned_calls cfg df) = Some (db w')
                  \<and> report_file w' = report_file w \<and> log w' = log w)"
proof (cases "chunksize cfg = 0")
  case True
  with assms have "ok = False" "w' = w" by (simp_all add: migrate_data_to_sql_def)
  then show ?thesis by (intro exI[of _ 0]) simp
next
  case False
  with assms have "write_chunks E cfg df
      (enumerate 0 (py_range 0 (length (rows df)) (chunksize cfg))) w = (ok, w')"
    by (simp add: migrate_data_to_sql_def)
  from write_chunks_issued[OF this] show ?thesis
    by (simp add: planned_calls_def take_map)
qed

lemma destination_after_Cons:
  "destination_after E d (c # cs) = destination_after E (snd (to_sql E d (fst c) (snd c))) cs"
  by (simp add: destination_after_def)

lemma commit_all_destination:
  "commit_all E d cs = Some d' \<Longrightarrow> destination_after E d cs = d'"
proof (induction cs arbitrary: d)
  case Nil
  then show ?case by (simp add: destination_after_def)
next
  case (Cons c cs)
  obtain res d1 where r: "to_sql E d (fst c) (snd c) = (res, d1)"
    by (cases "to_sql E d (fst c) (snd c)")
  with Cons.prems have "res = None" and "commit_all E d1 cs = Some d'"
    by (auto simp: commit_all_step simp del: commit_all.simps split: option.splits)
  with Cons.IH[of d1] r show ?case by (simp add: destination_after_Cons)
qed

lemma write_chunks_destination:
  "write_chunks E cfg df ps w = (ok, w') \<Longrightarrow>
   \<exists>k\<le>length ps.
      to_sql_calls w' = to_sql_calls w @ map (call_of cfg df) (take k ps)
      \<and> db w' = destination_after E (db w) (map (call_of cfg df) (take k ps))
      \<and> (ok \<longrightarrow> k = length ps)
      \<and> (\<not> ok \<longrightarrow> 0 < k
            \<and> (\<exists>d. commit_all E (db w) (map (call_of cfg df) (take (k - 1) ps)) = Some d
                   \<and> fst (to_sql E d (fst (call_of cfg df (ps ! (k - 1))))
                                     (snd (call_of cfg df (ps ! (k - 1))))) \<noteq> None))"
proof (induction ps arbitrary: w)
  case Nil
  then show ?case by (auto simp: destination_after_def)
next
  case (Cons p ps)
  obtain res d1 where r: "to_sql E (db w) (fst (call_of cfg df p)) (snd (call_of cfg df p)) = (res, d1)"
    by (cases "to_sql E (db w) (fst (call_of cfg df p)) (snd (call_of cfg df p))")
  let ?w1 = "w\<lparr>db := d1, to_sql_calls := to_sql_calls w @ [call_of cfg df p]\<rparr>"
  show ?case
  proof (cases res)
    case None
    then have "write_chunks E cfg df (p # ps) w = write_chunks E cfg df ps ?w1"
      using r by (simp add: write_chunks_step del: write_chunks.simps)
    with Cons.prems have "write_chunks E cfg df ps ?w1 = (ok, w')" by simp
    from Cons.IH[OF this] obtain k where k: "k \<le> length ps"
      "to_sql_calls w' = to_sql_calls ?w1 @ map (call_of cfg df) (take k ps)"
      "db w' = destination_after E (db ?w1) (map (call_of cfg df) (take k ps))"
      "ok \<longrightarrow> k = length ps"
      "\<not> ok \<longrightarrow> 0 < k
            \<and> (\<exists>d. commit_all E (db ?w1) (map (call_of cfg df) (take (k - 1) ps)) = Some d
                   \<and> fst (to_sql E d (fst (call_of cfg df (ps ! (k - 1))))
                                     (snd (call_of cfg df (ps ! (k - 1))))) \<noteq> None)"
      by blast
    have c: "\<And>cs. commit_all E (db w) (call_of cfg df p # cs) = commit_all E d1 cs"
      using r None by (simp add: commit_all_step del: commit_all.simps)
    have d: "\<And>cs. destination_after E (db w) (call_of cfg df p # cs) = destination_after E d1 cs"
      using r by (simp add: destination_after_Cons)
    have f: "\<not> ok \<longrightarrow> 0 < Suc k
            \<and> (\<exists>d. commit_all E (db w) (map (call_of cfg df) (take (Suc k - 1) (p # ps))) = Some d
                   \<and> fst (to_sql E d (fst (call_of cfg df ((p # ps) ! (Suc k - 1))))
                                     (snd (call_of cfg df ((p # ps) ! (Suc k - 1))))) \<noteq> None)"
    proof
      assume "\<not> ok"
      with k(5) obtain d0 where pos: "0 < k"
        and d0: "commit_all E d1 (map (call_of cfg df) (take (k - 1) ps)) = Some d0"
                "fst (to_sql E d0 (fst (call_of cfg df (ps ! (k - 1))))
                                     (snd (call_of cfg df (ps ! (k - 1))))) \<noteq> None"
        by auto
      from pos obtain j where j: "k = Suc j" by (cases k) auto
      have "commit_all E (db w) (map (call_of cfg df) (take (Suc k - 1) (p # ps))) = Some d0"
        using d0(1) c j by simp
      moreover have "(p # ps) ! (Suc k - 1) = ps ! (k - 1)" using j by simp
      ultimately show "0 < Suc k
            \<and> (\<exists>d. commit_all E (db w) (map (call_of cfg df) (take (Suc k - 1) (p # ps))) = Some d
                   \<and> fst (to_sql E d (fst (call_of cfg df ((p # ps) ! (Suc k - 1))))
                                     (snd (call_of cfg df ((p # ps) ! (Suc k - 1))))) \<noteq> None)"
        using d0(2) by auto
    qed
    have "Suc k \<le> length (p # ps)" using k(1) by simp
    moreover have "to_sql_calls w' = to_sql_calls w @ map (call_of cfg df) (take (Suc k) (p # ps))"
      using k(2) by simp
    moreover have "db w' = destination_after E (db w) (map (call_of cfg df) (take (Suc k) (p # ps)))"
      using k(3) d by simp
    moreover have "ok \<longrightarrow> Suc k = length (p # ps)" using k(4) by simp
    ultimately show ?thesis using f by blast
  next
    case (Some e)
    then have "write_chunks E cfg df (p # ps) w = (False, ?w1)"
      using r by (simp add: write_chunks_step del: write_chunks.simps)
    with Cons.prems have "ok = False" "w' = ?w1" by simp_all
    then show ?thesis
      using r Some by (intro exI[of _ "Suc 0"]) (simp add: destination_after_def)
  qed
qed

lemma first_then_append_eq:
  assumes "\<forall>i<length cs. fst (cs ! i) = (if i = 0 then m else Append)"
  shows "destination_after E d cs = first_then_append E m d (map snd cs)"
proof (cases cs)
  case Nil
  then show ?thesis by (simp add: destination_after_def first_then_append_def)
next
  case (Cons c rest)
  from assms Cons have m: "fst c = m" by auto
  have a: "\<forall>x\<in>set rest. fst x = Append"
  proof
    fix x assume "x \<in> set rest"
    then obtain i where "i < length rest" "x = rest ! i" by (auto simp: in_set_conv_nth)
    with assms[rule_format, of "Suc i"] Cons show "fst x = Append" by simp
  qed
  have "\<And>d0. foldl (\<lambda>d c. snd (to_sql E d (fst c) (snd c))) d0 rest
            = foldl (\<lambda>d c. snd (to_sql E d Append c)) d0 (map snd rest)"
    using a by (induction rest) simp_all
  with Cons m show ?thesis by (simp add: destination_after_def first_then_append_def)
qed

lemma migrate_destination:
  assumes "migrate_data_to_sql E cfg df w = (ok, w')"
  shows "\<exists>k\<le>length (planned_calls cfg df).
      to_sql_calls w' = to_sql_calls w @ take k (planned_calls cfg df)
      \<and> db w' = destination_after E (db w) (take k (planned_calls cfg df))
      \<and> (ok \<longrightarrow> k = length (planned_calls cfg df))
      \<and> (\<not> ok \<and> 0 < chunksize cfg \<longrightarrow> 0 < k
            \<and> (\<exists>d. commit_all E (db w) (take (k - 1) (planned_calls cfg df)) = Some d
                   \<and> fst (to_sql E d (fst (planned_calls cfg df ! (k - 1)))
                                     (snd (planned_calls cfg df ! (k - 1)))) \<noteq> None))"
proof (cases "chunksize cfg = 0")
  case True
  with assms have "ok = False" "w' = w" by (simp_all add: migrate_data_to_sql_def)
  with True show ?thesis by (intro exI[of _ 0]) (simp add: destination_after_def)
next
  case False
  let ?ps = "enumerate 0 (py_range 0 (length (rows df)) (chunksize cfg))"
  from False assms have "write_chunks E cfg df ?ps w = (ok, w')"
    by (simp add: migrate_data_to_sql_def)
  from write_chunks_destination[OF this] obtain k where k: "k \<le> length ?ps"
    "to_sql_calls w' = to_sql_calls w @ map (call_of cfg df) (take k ?ps)"
    "db w' = destination_after E (db w) (map (call_of cfg df) (take k ?ps))"
    "ok \<longrightarrow> k = length ?ps"
    "\<not> ok \<longrightarrow> 0 < k
       \<and> (\<exists>d. commit_all E (db w) (map (call_of cfg df) (take (k - 1) ?ps)) = Some d
              \<and> fst (to_sql E d (fst (call_of cfg df (?ps ! (k - 1))))
                                (snd (call_of cfg df (?ps ! (k - 1))))) \<noteq> None)"
    by blast
  have nth: "0 < k \<Longrightarrow> planned_calls cfg df ! (k - 1) = call_of cfg df (?ps ! (k - 1))"
    using k(1) unfolding planned_calls_def by (intro nth_map) simp
  have tk: "\<And>j. map (call_of cfg df) (take j ?ps) = take j (planned_calls cfg df)"
    by (simp add: planned_calls_def take_map)
  have len: "length (planned_calls cfg df) = length ?ps" by (simp add: planned_calls_def)
  from k(5) nth have
    "\<not> ok \<and> 0 < chunksize cfg \<longrightarrow> 0 < k
       \<and> (\<exists>d. commit_all E (db w) (take (k - 1) (planned_calls cfg df)) = Some d
              \<and> fst (to_sql E d (fst (planned_calls cfg df ! (k - 1)))
                                (snd (planned_calls cfg df ! (k - 1)))) \<noteq> None)"
    unfolding tk by auto
  with k(1-4) show ?thesis unfolding tk len[symmetric] by blast
qed

lemma prepared_five_rows:
  "prepared (example_env cap five_rows v r) (example_world None) = Some (five_rows_clean, started_world)"
  by code_simp

lemma run_fields:
  "run = (b, w\<lparr>db := d, to_sql_calls := cs\<rparr>) \<Longrightarrow>
   fst run = b \<and> db (snd run) = d \<and> to_sql_calls (snd run) = cs"
  by simp

lemma main_after_prepared:
  "prepared E w = Some (df, w1) \<Longrightarrow>
   main E cfg w =
     (case migrate_data_to_sql E cfg df w1 of
        (False, w2) \<Rightarrow> (False, w2)
      | (True, w2) \<Rightarrow>
          (if \<not> verify_migration E w2 then (False, w2)
           else (case generate_summary_report E df w2 of
                   Inl e \<Rightarrow> (False, w2)
                 | Inr w3 \<Rightarrow> (True, w3))))"
  by (auto simp: prepared_def main_def split: if_splits sum.splits prod.splits)

text \<open>
  The log functions give the counts the two steps return when they complete, and keep the
  counts logged before an exception: a name column of numbers raises in the length check,
  after the number of removed rows was logged.
\<close>

lemma validate_data_log_returned:
  "validate_data df = Inr (df1, lg) \<Longrightarrow> validate_data_log df = lg"
  by (auto simp: validate_data_def validate_data_log_def Let_def split: sum.splits prod.splits)

lemma clean_dates_log_returned:
  "for_each (clean_date_column E) cols st = Inr st' \<Longrightarrow> clean_dates_log E cols st = snd st'"
  by (induction cols arbitrary: st) (auto split: sum.splits)

lemma clean_and_transform_data_log_returned:
  "clean_and_transform_data E df = Inr (df', lg) \<Longrightarrow> clean_and_transform_data_log E df = lg"
  by (auto simp: clean_and_transform_data_def clean_and_transform_data_log_def
           dest: clean_dates_log_returned split: sum.splits prod.splits)

lemma numeric_name_keeps_log:
  "validate_data numeric_name_frame = Inl AttributeError
   \<and> main (example_env 100 numeric_name_frame True True) MIGRATION_CONFIG (example_world None)
       = (False, (example_world None)\<lparr>log := [RemovedMissingNames 1]\<rparr>)"
  by code_simp

section \<open>Properties of the chunked writer\<close>

text \<open>
  C4. With a positive chunk size \<open>B\<close>, a run of the writer in which every write completes
  issues exactly \<open>\<lceil>N/B\<rceil>\<close> writes for a frame of \<open>N\<close> rows. Their batches, in the order
  written, concatenate to the frame's rows: batch \<open>i\<close> is the slice of \<open>B\<close> rows starting at
  row \<open>i * B\<close>, so the batches are contiguous, do not overlap and keep the order; each has at
  most \<open>B\<close> rows, and their sizes sum to \<open>N\<close>.
\<close>

theorem chunked_writer_partitions:
  assumes "0 < chunksize cfg" and "migrate_data_to_sql E cfg df w = (True, w')"
  shows "\<exists>batches.
           to_sql_calls w' = to_sql_calls w @ batches
           \<and> length batches = (length (rows df) + chunksize cfg - 1) div chunksize cfg
           \<and> concat (map (\<lambda>c. rows (snd c)) batches) = rows df
           \<and> (\<forall>i<length batches.
                rows (snd (batches ! i)) = take (chunksize cfg) (drop (i * chunksize cfg) (rows df)))
           \<and> (\<forall>c\<in>set batches. length (rows (snd c)) \<le> chunksize cfg)
           \<and> sum_list (map (\<lambda>c. length (rows (snd c))) batches) = length (rows df)"
proof -
  let ?p = "planned_calls cfg df"
  from migrate_issued[OF assms(2)] have calls: "to_sql_calls w' = to_sql_calls w @ ?p"
    by auto
  have nth: "\<forall>i<length ?p.
      rows (snd (?p ! i)) = take (chunksize cfg) (drop (i * chunksize cfg) (rows df))"
    by (simp add: planned_calls_nth)
  have bound: "\<forall>c\<in>set ?p. length (rows (snd c)) \<le> chunksize cfg"
  proof
    fix c assume "c \<in> set ?p"
    then obtain i where "i < length ?p" "c = ?p ! i" by (auto simp: in_set_conv_nth)
    then show "length (rows (snd c)) \<le> chunksize cfg" by (simp add: planned_calls_nth)
  qed
  have cat: "concat (map (\<lambda>c. rows (snd c)) ?p) = rows df"
    by (rule planned_calls_rows[OF assms(1)])
  have "sum_list (map (\<lambda>c. length (rows (snd c))) ?p)
          = length (concat (map (\<lambda>c. rows (snd c)) ?p))"
    by (simp add: length_concat comp_def)
  with cat have total: "sum_list (map (\<lambda>c. length (rows (snd c))) ?p) = length (rows df)"
    by simp
  from calls planned_calls_length[OF assms(1)] cat nth bound total show ?thesis
    by blast
qed

text \<open>Five rows in chunks of two: three batches of 2, 2 and 1 rows that make up the frame.\<close>

theorem chunked_writer_partitions_witness:
  "0 < chunksize (example_config 2 Replace)
   \<and> fst (migrate_data_to_sql (example_env 100 five_rows True True) (example_config 2 Replace)
            five_rows (example_world None))
   \<and> map (\<lambda>c. length (rows (snd c)))
        (to_sql_calls (snd (migrate_data_to_sql (example_env 100 five_rows True True)
                              (example_config 2 Replace) five_rows (example_world None))))
       = [2, 2, 1]
   \<and> concat (map (\<lambda>c. rows (snd c))
        (to_sql_calls (snd (migrate_data_to_sql (example_env 100 five_rows True True)
                              (example_config 2 Replace) five_rows (example_world None)))))
       = rows five_rows"
proof -
  let ?run = "migrate_data_to_sql (example_env 100 five_rows True True) (example_config 2 Replace)
                five_rows (example_world None)"
  have h1: "0 < chunksize (example_config 2 Replace)" by code_simp
  have ok: "fst ?run" by code_simp
  then have h2: "?run = (True, snd ?run)" by (cases ?run) simp
  have sizes: "map (\<lambda>c. length (rows (snd c))) (to_sql_calls (snd ?run)) = [2, 2, 1]"
    by code_simp
  from chunked_writer_partitions[OF h1 h2] obtain batches where
    b: "to_sql_calls (snd ?run) = to_sql_calls (example_world None) @ batches"
       "concat (map (\<lambda>c. rows (snd c)) batches) = rows five_rows"
    by blast
  have "to_sql_calls (example_world None) = []" by (simp add: example_world_def)
  with b have "concat (map (\<lambda>c. rows (snd c)) (to_sql_calls (snd ?run))) = rows five_rows"
    by simp
  with h1 ok sizes show ?thesis by blast
qed

lemma modes_of_three:
  assumes "length xs = 3"
    and "\<forall>i<length xs. fst (xs ! i) = (if i = 0 then m else Append)"
  shows "map fst xs = [m, Append, Append]"
proof -
  from assms(1) obtain a b c where xs: "xs = [a, b, c]"
    by (auto simp: length_Suc_conv numeral_3_eq_3)
  from assms(2) have "fst (xs ! 0) = m" "fst (xs ! 1) = Append" "fst (xs ! 2) = Append"
    using assms(1) by auto
  with xs show ?thesis by simp
qed

text \<open>
  C9. Whatever the configured mode and whether or not a write fails, the writes a run
  issues are an initial part of the planned ones: write \<open>i\<close> carries the rows from
  \<open>i * B\<close> on, at most \<open>B\<close> of them, and only the first carries the configured mode; every
  later one is issued in mode \<open>Append\<close>. The destination the run leaves is the one obtained
  by letting the configured mode act once, with the first batch, on the destination as the
  run found it, and appending every later batch to what the write before it left. A run
  that returns True has issued every planned write, and each has completed. A run that
  returns False with a positive chunk size has issued at least one write: the last one
  raised, after those before it had completed.
\<close>

theorem first_batch_carries_mode:
  assumes "migrate_data_to_sql E cfg df w = (ok, w')"
  shows "\<exists>issued.
           to_sql_calls w' = to_sql_calls w @ issued
           \<and> issued = take (length issued) (planned_calls cfg df)
           \<and> (\<forall>i<length issued. fst (issued ! i) = (if i = 0 then if_exists cfg else Append))
           \<and> (\<forall>i<length issued.
                 rows (snd (issued ! i)) = take (chunksize cfg) (drop (i * chunksize cfg) (rows df)))
           \<and> db w' = first_then_append E (if_exists cfg) (db w) (map snd issued)
           \<and> (ok \<longrightarrow> issued = planned_calls cfg df \<and> commit_all E (db w) issued = Some (db w'))
           \<and> (\<not> ok \<and> 0 < chunksize cfg \<longrightarrow>
                issued \<noteq> []
                \<and> (\<exists>d. commit_all E (db w) (butlast issued) = Some d
                       \<and> fst (to_sql E d (fst (last issued)) (snd (last issued))) \<noteq> None))"
proof -
  let ?p = "planned_calls cfg df"
  from migrate_destination[OF assms] obtain k where k: "k \<le> length ?p"
    "to_sql_calls w' = to_sql_calls w @ take k ?p"
    "db w' = destination_after E (db w) (take k ?p)"
    "ok \<longrightarrow> k = length ?p"
    "\<not> ok \<and> 0 < chunksize cfg \<longrightarrow> 0 < k
       \<and> (\<exists>d. commit_all E (db w) (take (k - 1) ?p) = Some d
              \<and> fst (to_sql E d (fst (?p ! (k - 1))) (snd (?p ! (k - 1)))) \<noteq> None)"
    by blast
  let ?is = "take k ?p"
  have len: "length ?is = k" using k(1) by simp
  have modes: "\<forall>i<length ?is. fst (?is ! i) = (if i = 0 then if_exists cfg else Append)"
    using k(1) by (simp add: planned_calls_nth)
  have batches: "\<forall>i<length ?is.
      rows (snd (?is ! i)) = take (chunksize cfg) (drop (i * chunksize cfg) (rows df))"
    using k(1) by (simp add: planned_calls_nth)
  have dest: "db w' = first_then_append E (if_exists cfg) (db w) (map snd ?is)"
    using k(3) first_then_append_eq[OF modes] by simp
  have complete: "ok \<longrightarrow> ?is = ?p \<and> commit_all E (db w) ?is = Some (db w')"
  proof
    assume ok
    with k(4) have "?is = ?p" by simp
    moreover from migrate_issued[OF assms] \<open>ok\<close>
    have "commit_all E (db w) ?p = Some (db w')" by blast
    ultimately show "?is = ?p \<and> commit_all E (db w) ?is = Some (db w')" by simp
  qed
  have aborted: "\<not> ok \<and> 0 < chunksize cfg \<longrightarrow>
                ?is \<noteq> []
                \<and> (\<exists>d. commit_all E (db w) (butlast ?is) = Some d
                       \<and> fst (to_sql E d (fst (last ?is)) (snd (last ?is))) \<noteq> None)"
  proof
    assume "\<not> ok \<and> 0 < chunksize cfg"
    with k(5) obtain d where pos: "0 < k"
      and d: "commit_all E (db w) (take (k - 1) ?p) = Some d"
             "fst (to_sql E d (fst (?p ! (k - 1))) (snd (?p ! (k - 1)))) \<noteq> None"
      by blast
    from pos k(1) have ne: "?is \<noteq> []" by auto
    have b: "butlast ?is = take (k - 1) ?p" using k(1) by (simp add: butlast_take)
    have l: "last ?is = ?p ! (k - 1)" using k(1) pos ne by (simp add: last_conv_nth)
    from ne d show "?is \<noteq> []
                \<and> (\<exists>d. commit_all E (db w) (butlast ?is) = Some d
                       \<and> fst (to_sql E d (fst (last ?is)) (snd (last ?is))) \<noteq> None)"
      unfolding b l by blast
  qed
  from k(2) len modes batches dest complete aborted show ?thesis
    by (intro exI[of _ ?is]) (simp only: simp_thms)
qed

text \<open>
  Five rows in chunks of two, written to a table that holds one row. Under \<open>Replace\<close> the
  first write drops the old row and the two appends keep the first batch: the table ends
  with the five rows. Under \<open>Append\<close> the old row stays in front of them. Under \<open>Fail\<close> the
  first write raises and is the only one issued; on an absent table it is followed by two
  appends.
\<close>

theorem first_batch_carries_mode_witness:
  "map fst (to_sql_calls (snd (migrate_data_to_sql (example_env 100 five_rows True True)
      (example_config 2 Replace) five_rows_clean (example_world (Some old_rows)))))
     = [Replace, Append, Append]
   \<and> db (snd (migrate_data_to_sql (example_env 100 five_rows True True)
      (example_config 2 Replace) five_rows_clean (example_world (Some old_rows))))
     = Some (rows five_rows_clean)
   \<and> db (snd (migrate_data_to_sql (example_env 100 five_rows True True)
      (example_config 2 Append) five_rows_clean (example_world (Some old_rows))))
     = Some (old_rows @ rows five_rows_clean)
   \<and> migrate_data_to_sql (example_env 100 five_rows True True)
      (example_config 2 Fail) five_rows_clean (example_world (Some old_rows))
     = (False, (example_world (Some old_rows))
                 \<lparr>to_sql_calls := take 1 (planned_calls (example_config 2 Fail) five_rows_clean)\<rparr>)
   \<and> map fst (to_sql_calls (snd (migrate_data_to_sql (example_env 100 five_rows True True)
      (example_config 2 Fail) five_rows_clean (example_world None))))
     = [Fail, Append, Append]"
proof -
  let ?E = "example_env 100 five_rows True True"
  let ?cfg = "example_config 2 Replace"
  let ?w = "example_world (Some old_rows)"
  let ?run = "migrate_data_to_sql ?E ?cfg five_rows_clean ?w"
  have "fst ?run" by code_simp
  then have h: "?run = (True, snd ?run)" by (cases ?run) simp
  from first_batch_carries_mode[OF h] obtain issued where
    i: "to_sql_calls (snd ?run) = to_sql_calls ?w @ issued"
       "\<forall>i<length issued. fst (issued ! i) = (if i = 0 then if_exists ?cfg else Append)"
       "db (snd ?run) = first_then_append ?E (if_exists ?cfg) (db ?w) (map snd issued)"
       "issued = planned_calls ?cfg five_rows_clean"
    by blast
  have n: "length (planned_calls ?cfg five_rows_clean) = 3" by code_simp
  have e: "to_sql_calls ?w = []" by (simp add: example_world_def)
  have m: "if_exists ?cfg = Replace" by code_simp
  have f: "first_then_append ?E Replace (db ?w) (map snd (planned_calls ?cfg five_rows_clean))
             = Some (rows five_rows_clean)" by code_simp
  from i(1) e have eq: "to_sql_calls (snd ?run) = issued" by (simp only: append_Nil)
  from n i(4) have n': "length issued = 3" by (simp only:)
  from i(2) m have "\<forall>i<length issued. fst (issued ! i) = (if i = 0 then Replace else Append)"
    by (simp only:)
  with n' have "map fst issued = [Replace, Append, Append]"
    by (rule modes_of_three)
  with eq have c1: "map fst (to_sql_calls (snd ?run)) = [Replace, Append, Append]"
    by (simp only:)
  from i(3) i(4) m f have c2: "db (snd ?run) = Some (rows five_rows_clean)"
    by (simp only:)
  have c3: "db (snd (migrate_data_to_sql ?E (example_config 2 Append) five_rows_clean ?w))
     = Some (old_rows @ rows five_rows_clean)" by code_simp
  have c4: "migrate_data_to_sql ?E (example_config 2 Fail) five_rows_clean ?w
     = (False, ?w\<lparr>to_sql_calls := take 1 (planned_calls (example_config 2 Fail) five_rows_clean)\<rparr>)"
    by code_simp
  have c5: "map fst (to_sql_calls (snd (migrate_data_to_sql ?E (example_config 2 Fail)
      five_rows_clean (example_world None)))) = [Fail, Append, Append]"
    by code_simp
  from c1 c2 c3 c4 c5 show ?thesis by (simp only: simp_thms)
qed

text \<open>
  C10. On a frame without rows the writer, with a positive chunk size, issues no write and
  returns True: the world it returns is the one it was given, so the destination is as it was
  under every configured mode, \<open>Replace\<close> included.
\<close>

theorem empty_frame_writes_nothing:
  assumes "rows df = []" and "0 < chunksize cfg"
  shows "migrate_data_to_sql E cfg df w = (True, w)"
  using assms by (simp add: migrate_data_to_sql_def py_range.simps[of 0 0])

theorem empty_frame_writes_nothing_witness:
  "rows (example_frame []) = [] \<and> 0 < chunksize MIGRATION_CONFIG
   \<and> if_exists MIGRATION_CONFIG = Replace
   \<and> migrate_data_to_sql (example_env 100 five_rows True True) MIGRATION_CONFIG (example_frame [])
        (example_world (Some (rows five_rows)))
       = (True, example_world (Some (rows five_rows)))"
proof -
  have h1: "rows (example_frame []) = []" by (simp add: example_frame_def)
  have h2: "0 < chunksize MIGRATION_CONFIG" by (simp add: MIGRATION_CONFIG_def)
  have h3: "if_exists MIGRATION_CONFIG = Replace" by (simp add: MIGRATION_CONFIG_def)
  from empty_frame_writes_nothing[OF h1 h2] h1 h2 h3 show ?thesis by blast
qed

text \<open>
  C5. Let the run reach the writer, let the first \<open>k\<close> planned writes complete and leave
  the destination \<open>d\<close>, and let the next write raise, leaving \<open>d'\<close>. Then the writer returns
  False and so does \<open>main\<close>. The writes issued are exactly those \<open>k + 1\<close>: no later batch is
  attempted and nothing is issued to undo the \<open>k\<close> committed batches; the destination is left
  as the failed write left it.
\<close>

theorem failed_batch_aborts_run:
  assumes "prepared E w = Some (df, w1)"
    and "k < length (planned_calls cfg df)"
    and "commit_all E (db w1) (take k (planned_calls cfg df)) = Some d"
    and "to_sql E d (fst (planned_calls cfg df ! k)) (snd (planned_calls cfg df ! k)) = (Some e, d')"
  shows "migrate_data_to_sql E cfg df w1 =
           (False, w1\<lparr>db := d', to_sql_calls := to_sql_calls w1 @ take (Suc k) (planned_calls cfg df)\<rparr>)
         \<and> main E cfg w =
           (False, w1\<lparr>db := d', to_sql_calls := to_sql_calls w1 @ take (Suc k) (planned_calls cfg df)\<rparr>)"
proof -
  let ?ps = "enumerate 0 (py_range 0 (length (rows df)) (chunksize cfg))"
  from assms(2) have k: "k < length ?ps" by (simp add: planned_calls_def)
  then have pos: "chunksize cfg \<noteq> 0"
    by (cases "chunksize cfg = 0") (auto simp: py_range.simps[of 0 _ 0])
  have split: "?ps = take k ?ps @ ?ps ! k # drop (Suc k) ?ps"
    using k by (rule id_take_nth_drop)
  have pre: "commit_all E (db w1) (map (call_of cfg df) (take k ?ps)) = Some d"
    using assms(3) by (simp add: planned_calls_def take_map)
  have at: "to_sql E d (fst (call_of cfg df (?ps ! k))) (snd (call_of cfg df (?ps ! k))) = (Some e, d')"
    using assms(4) k by (simp add: planned_calls_def)
  have "write_chunks E cfg df (take k ?ps @ ?ps ! k # drop (Suc k) ?ps) w1 =
          (False, w1\<lparr>db := d', to_sql_calls := to_sql_calls w1
             @ map (call_of cfg df) (take k ?ps @ [?ps ! k])\<rparr>)"
    by (rule write_chunks_aborts[OF pre at])
  moreover have "map (call_of cfg df) (take k ?ps @ [?ps ! k]) = take (Suc k) (planned_calls cfg df)"
    using k by (simp add: planned_calls_def take_map take_Suc_conv_app_nth)
  ultimately have m: "migrate_data_to_sql E cfg df w1 =
      (False, w1\<lparr>db := d', to_sql_calls := to_sql_calls w1 @ take (Suc k) (planned_calls cfg df)\<rparr>)"
    using pos split by (simp add: migrate_data_to_sql_def)
  with main_after_prepared[OF assms(1), of cfg] show ?thesis by simp
qed

text \<open>
  Five rows in chunks of two into a destination that holds at most three rows: the first
  batch is committed, the second raises, the third is never attempted, and the two rows
  of the first batch stay in the destination.
\<close>

theorem failed_batch_aborts_run_witness:
  "prepared (example_env 3 five_rows True True) (example_world None)
     = Some (five_rows_clean, started_world)
   \<and> length (planned_calls (example_config 2 Replace) five_rows_clean) = 3
   \<and> fst (main (example_env 3 five_rows True True) (example_config 2 Replace) (example_world None))
       = False
   \<and> db (snd (main (example_env 3 five_rows True True) (example_config 2 Replace)
                 (example_world None)))
       = Some (take 2 (rows five_rows_clean))
   \<and> to_sql_calls (snd (main (example_env 3 five_rows True True) (example_config 2 Replace)
                 (example_world None)))
       = take 2 (planned_calls (example_config 2 Replace) five_rows_clean)"
proof -
  let ?E = "example_env 3 five_rows True True"
  let ?cfg = "example_config 2 Replace"
  let ?p = "planned_calls ?cfg five_rows_clean"
  let ?d = "Some (take 2 (rows five_rows_clean))"
  have h1: "prepared ?E (example_world None) = Some (five_rows_clean, started_world)"
    by (rule prepared_five_rows)
  have n: "length ?p = 3" by code_simp
  then have h2: "1 < length ?p" by simp
  have h3: "commit_all ?E (db started_world) (take 1 ?p) = Some ?d" by code_simp
  have h4: "to_sql ?E ?d (fst (?p ! 1)) (snd (?p ! 1)) = (Some ExternalError, ?d)" by code_simp
  have e: "to_sql_calls started_world @ take (Suc 1) ?p = take 2 ?p" by code_simp
  from failed_batch_aborts_run[OF h1 h2 h3 h4]
  have "main ?E ?cfg (example_world None) =
      (False, started_world\<lparr>db := ?d, to_sql_calls := to_sql_calls started_world @ take (Suc 1) ?p\<rparr>)"
    by (rule conjunct2)
  from run_fields[OF this] e h1 n show ?thesis by (simp only:)
qed

section \<open>Properties of the driver\<close>

text \<open>
  C1 as the specification states it, at a concrete run: every batch write completes, the
  verification queries raise, and \<open>main\<close> returns False.
\<close>

theorem verification_failure_counterexample:
  "prepared (example_env 100 five_rows False True) (example_world None)
     = Some (five_rows_clean, started_world)
   \<and> fst (migrate_data_to_sql (example_env 100 five_rows False True) (example_config 2 Replace)
            five_rows_clean started_world)
   \<and> \<not> verify_migration (example_env 100 five_rows False True)
          (snd (migrate_data_to_sql (example_env 100 five_rows False True)
                  (example_config 2 Replace) five_rows_clean started_world))
   \<and> \<not> fst (main (example_env 100 five_rows False True) (example_config 2 Replace)
              (example_world None))"
  by code_simp

text \<open>
  C1, amended. When the run reaches the writer, every batch write completes and the
  verification fails, \<open>main\<close> returns False. The load is not undone: the world returned is
  the one the writer left, whose destination holds every planned batch, and no report is
  written.
\<close>

theorem verification_failure_fails_run:
  assumes "prepared E w = Some (df, w1)"
    and "migrate_data_to_sql E cfg df w1 = (True, w2)"
    and "\<not> verify_migration E w2"
  shows "main E cfg w = (False, w2)
         \<and> commit_all E (db w1) (planned_calls cfg df) = Some (db w2)
         \<and> to_sql_calls w2 = to_sql_calls w1 @ planned_calls cfg df
         \<and> report_file w2 = report_file w"
proof -
  have m: "main E cfg w = (False, w2)"
    using main_after_prepared[OF assms(1), of cfg] assms(2,3) by simp
  from migrate_issued[OF assms(2)] have
    c: "commit_all E (db w1) (planned_calls cfg df) = Some (db w2)"
       "to_sql_calls w2 = to_sql_calls w1 @ planned_calls cfg df"
       "report_file w2 = report_file w1"
    by auto
  from assms(1) have "report_file w1 = report_file w"
    by (auto simp: prepared_def split: if_splits sum.splits prod.splits)
  with m c show ?thesis by simp
qed

theorem verification_failure_fails_run_witness:
  "prepared (example_env 100 five_rows False True) (example_world None)
     = Some (five_rows_clean, started_world)
   \<and> \<not> fst (main (example_env 100 five_rows False True) (example_config 2 Replace)
              (example_world None))
   \<and> db (snd (main (example_env 100 five_rows False True) (example_config 2 Replace)
                 (example_world None)))
       = Some (rows five_rows_clean)
   \<and> report_file (snd (main (example_env 100 five_rows False True) (example_config 2 Replace)
                          (example_world None))) = None"
proof -
  let ?E = "example_env 100 five_rows False True"
  let ?cfg = "example_config 2 Replace"
  let ?w2 = "snd (migrate_data_to_sql ?E ?cfg five_rows_clean started_world)"
  have h1: "prepared ?E (example_world None) = Some (five_rows_clean, started_world)"
    by (rule prepared_five_rows)
  have "fst (migrate_data_to_sql ?E ?cfg five_rows_clean started_world)" by code_simp
  then have h2: "migrate_data_to_sql ?E ?cfg five_rows_clean started_world = (True, ?w2)"
    by (cases "migrate_data_to_sql ?E ?cfg five_rows_clean started_world") simp
  have h3: "\<not> verify_migration ?E ?w2" by code_simp
  from verification_failure_fails_run[OF h1 h2 h3]
  have m: "main ?E ?cfg (example_world None) = (False, ?w2)" by (rule conjunct1)
  have d: "db ?w2 = Some (rows five_rows_clean)" by code_simp
  have r: "report_file ?w2 = None" by code_simp
  from m have "fst (main ?E ?cfg (example_world None)) = False"
    "snd (main ?E ?cfg (example_world None)) = ?w2"
    by (simp_all only: fst_conv snd_conv)
  with h1 d r show ?thesis by (simp only: simp_thms)
qed




section \<open>Frames under validation and cleaning\<close>

lemma has_column_labels: "has_column df c \<longleftrightarrow> c \<in> set (labels df)"
  by (simp add: has_column_def labels_def)

lemma duplicated_label_labels: "duplicated_label df c \<longleftrightarrow> count_list (labels df) c > 1"
  by (simp add: duplicated_label_def labels_def)

lemma wf_frame_labels: "wf_frame df \<longleftrightarrow> (\<forall>r\<in>set (rows df). map fst r = labels df)"
  by (simp add: wf_frame_def labels_def list_all_iff)

lemma keys_set_cell: "map fst (set_cell r c v) = map fst r"
  by (induction r) (auto simp: set_cell_def)

lemma get_set_cell_other: "c' \<noteq> c \<Longrightarrow> get_cell (set_cell r c v) c' = get_cell r c'"
  by (induction r) (auto simp: set_cell_def get_cell_def)

lemma get_set_cell_same: "c \<in> set (map fst r) \<Longrightarrow> get_cell (set_cell r c v) c = v"
  by (induction r) (auto simp: set_cell_def get_cell_def)

lemma labels_map_column: "labels (map_column c t f df) = labels df"
  by (simp add: labels_def map_column_def comp_def case_prod_unfold if_distrib cong: if_cong)

lemma wf_map_column: "wf_frame df \<Longrightarrow> wf_frame (map_column c t f df)"
  unfolding wf_frame_labels labels_map_column
  by (simp add: map_column_def keys_set_cell)

lemma column_values_map_column_other:
  "c' \<noteq> c \<Longrightarrow> column_values (map_column c t f df) c' = column_values df c'"
  by (simp add: column_values_def map_column_def get_set_cell_other)

lemma column_values_map_column_same:
  "wf_frame df \<Longrightarrow> has_column df c \<Longrightarrow>
   column_values (map_column c t f df) c = map f (column_values df c)"
  by (simp add: column_values_def map_column_def get_set_cell_same wf_frame_labels
      has_column_labels)

lemma length_rows_map_column: "length (rows (map_column c t f df)) = length (rows df)"
  by (simp add: map_column_def)

lemma labels_loc_update: "labels (loc_update flags c f df) = labels df"
  by (simp add: labels_def loc_update_def)

lemma wf_loc_update: "wf_frame df \<Longrightarrow> wf_frame (loc_update flags c f df)"
  unfolding wf_frame_labels labels_loc_update
  by (auto simp: loc_update_def keys_set_cell dest!: set_zip_rightD)

lemma length_rows_loc_update:
  "length flags = length (rows df) \<Longrightarrow> length (rows (loc_update flags c f df)) = length (rows df)"
  by (simp add: loc_update_def)

lemma column_values_loc_update_other:
  assumes "length flags = length (rows df)" and "c' \<noteq> c"
  shows "column_values (loc_update flags c f df) c' = column_values df c'"
proof -
  have "map (\<lambda>(m, r). get_cell (if m then set_cell r c (f (get_cell r c)) else r) c') (zip flags (rows df))
        = map (\<lambda>(m, r). get_cell r c') (zip flags (rows df))"
    using assms(2) by (auto simp: get_set_cell_other)
  also have "\<dots> = map (\<lambda>r. get_cell r c') (map snd (zip flags (rows df)))"
    by (simp add: case_prod_unfold)
  also have "\<dots> = map (\<lambda>r. get_cell r c') (rows df)"
    using assms(1) by simp
  finally show ?thesis
    by (simp add: column_values_def loc_update_def case_prod_unfold comp_def)
qed

lemma column_values_loc_update_same:
  assumes "wf_frame df" and "has_column df c"
  shows "column_values (loc_update (map p (column_values df c)) c f df) c
           = map (\<lambda>v. if p v then f v else v) (column_values df c)"
proof -
  have k: "\<forall>r\<in>set (rows df). c \<in> set (map fst r)"
    using assms by (simp add: wf_frame_labels has_column_labels)
  have "rows (loc_update (map p (column_values df c)) c f df)
        = map (\<lambda>r. if p (get_cell r c) then set_cell r c (f (get_cell r c)) else r) (rows df)"
    by (simp add: loc_update_def column_values_def zip_map1 zip_same_conv_map)
  then show ?thesis
    using k by (auto simp: column_values_def get_set_cell_same)
qed


lemma column_values_loc_update_zip:
  assumes "wf_frame df" and "has_column df c"
  shows "column_values (loc_update flags c f df) c
           = map (\<lambda>(m, v). if m then f v else v) (zip flags (column_values df c))"
proof -
  have k: "\<forall>r\<in>set (rows df). c \<in> set (map fst r)"
    using assms by (simp add: wf_frame_labels has_column_labels)
  have "\<forall>p\<in>set (zip flags (rows df)).
          get_cell (if fst p then set_cell (snd p) c (f (get_cell (snd p) c)) else snd p) c
            = (if fst p then f (get_cell (snd p) c) else get_cell (snd p) c)"
    using k by (auto simp: get_set_cell_same dest!: set_zip_rightD)
  then show ?thesis
    by (simp add: column_values_def loc_update_def zip_map2 case_prod_unfold comp_def)
qed

lemma mask_any_map: "mask_any (map p xs) \<longleftrightarrow> (\<exists>x\<in>set xs. p x)"
  by (auto simp: mask_any_def)

lemma map_if_none: "\<not> mask_any (map p xs) \<Longrightarrow> map (\<lambda>v. if p v then a else v) xs = xs"
  by (induction xs) (auto simp: mask_any_def)

lemma clamp_date_cell:
  "clamp_date E v =
     (let w = to_datetime_cell E v
      in if too_new_cell w then NaN else if too_old_cell w then NaN else w)"
  by (simp add: clamp_date_def to_datetime_cell_def too_new_cell_def too_old_cell_def Let_def
      split: option.splits)

lemma clean_date_column_absent:
  "\<not> has_column df col \<Longrightarrow> clean_date_column E col (df, lg) = Inr (df, lg)"
  by (simp add: clean_date_column_def)

lemma clean_date_column_present:
  assumes "wf_frame df" and "has_column df col"
    and "clean_date_column E col (df, lg) = Inr (df', lg')"
  shows "wf_frame df' \<and> labels df' = labels df \<and> length (rows df') = length (rows df)
         \<and> (\<forall>c'. c' \<noteq> col \<longrightarrow> column_values df' c' = column_values df c')
         \<and> column_values df' col = map (clamp_date E) (column_values df col)
         \<and> (\<exists>extra. lg' = lg @ extra @
               [InvalidDates col
                  (mask_sum (map isna (map (to_datetime_cell E) (column_values df col))))
                  (mask_sum (map isna (map (clamp_date E) (column_values df col))))])"
proof -
  let ?cv = "column_values df col"
  let ?df1 = "map_column col datetime64 (to_datetime_cell E) df"
  let ?cv1 = "map (to_datetime_cell E) ?cv"
  let ?old = "map too_old_cell ?cv1"
  let ?new = "map too_new_cell ?cv1"
  let ?df2 = "if mask_any ?old then loc_update ?old col (\<lambda>_. NaN) ?df1 else ?df1"
  let ?df3 = "if mask_any ?new then loc_update ?new col (\<lambda>_. NaN) ?df2 else ?df2"
  let ?df4 = "if mask_any (map (\<lambda>v. \<not> isna v) ?cv1) then ?df3 else ?df1"
  have cv1: "column_values ?df1 col = ?cv1"
    using assms(1,2) by (rule column_values_map_column_same)
  have wf1: "wf_frame ?df1" using assms(1) by (rule wf_map_column)
  have hc1: "has_column ?df1 col"
    using assms(2) by (simp add: has_column_labels labels_map_column)
  have len1: "length (rows ?df1) = length (rows df)" by (rule length_rows_map_column)
  have wf2: "wf_frame ?df2" using wf1 by (simp add: wf_loc_update)
  have hc2: "has_column ?df2 col"
    using hc1 by (simp add: has_column_labels labels_loc_update)
  have len2: "length (rows ?df2) = length (rows df)"
    using len1 by (simp add: length_rows_loc_update column_values_def)
  have cv2: "column_values ?df2 col = map (\<lambda>v. if too_old_cell v then NaN else v) ?cv1"
  proof (cases "mask_any ?old")
    case True
    then show ?thesis
      using column_values_loc_update_same[OF wf1 hc1, of too_old_cell "\<lambda>_. NaN"] cv1 by simp
  next
    case False
    then show ?thesis using cv1 map_if_none[OF False] by simp
  qed
  have cv3: "column_values ?df3 col
               = map (\<lambda>v. if too_new_cell v then NaN else if too_old_cell v then NaN else v) ?cv1"
  proof (cases "mask_any ?new")
    case True
    have "column_values (loc_update ?new col (\<lambda>_. NaN) ?df2) col
            = map (\<lambda>(m, v). if m then NaN else v) (zip ?new (column_values ?df2 col))"
      using wf2 hc2 by (rule column_values_loc_update_zip)
    also have "\<dots> = map (\<lambda>v. if too_new_cell v then NaN else if too_old_cell v then NaN else v) ?cv1"
      unfolding cv2 by (simp add: zip_map_map zip_same_conv_map)
    finally show ?thesis using True by simp
  next
    case False
    have "map (\<lambda>v. if too_new_cell v then NaN else if too_old_cell v then NaN else v) ?cv1
            = map (\<lambda>v. if too_old_cell v then NaN else v) ?cv1"
      using False by (auto simp: mask_any_map)
    then show ?thesis using False cv2 by simp
  qed
  have cv4: "column_values ?df4 col = map (clamp_date E) ?cv"
  proof (cases "mask_any (map (\<lambda>v. \<not> isna v) ?cv1)")
    case True
    then show ?thesis using cv3 by (simp add: clamp_date_cell Let_def comp_def)
  next
    case False
    then have "\<forall>v\<in>set ?cv. to_datetime_cell E v = NaN"
      by (auto simp: mask_any_map isna_def)
    then have "map (clamp_date E) ?cv = ?cv1"
      by (auto simp: clamp_date_cell Let_def too_new_cell_def too_old_cell_def)
    then show ?thesis using False cv1 by simp
  qed
  have wf4: "wf_frame ?df4" using wf1 by (simp add: wf_loc_update)
  have lab4: "labels ?df4 = labels df"
    by (simp add: labels_loc_update labels_map_column)
  have len4: "length (rows ?df4) = length (rows df)"
    using len1 len2 by (simp add: length_rows_loc_update column_values_def)
  have other4: "\<forall>c'. c' \<noteq> col \<longrightarrow> column_values ?df4 c' = column_values df c'"
    using len1 len2
    by (simp add: column_values_loc_update_other column_values_map_column_other
        column_values_def[of _ col])
  from assms(2,3) have nd: "\<not> duplicated_label df col"
    by (auto simp: clean_date_column_def split: if_splits)
  from assms(3) nd assms(2) have res: "df' = ?df4"
    by (auto simp: clean_date_column_def Let_def cv1 split: if_splits prod.splits)
  from assms(3) nd assms(2) have lg: "\<exists>extra. lg' = lg @ extra @
      [InvalidDates col (mask_sum (map isna ?cv1))
         (mask_sum (map isna (column_values ?df4 col)))]"
    by (auto simp: clean_date_column_def Let_def cv1 split: if_splits prod.splits)
  from res wf4 lab4 len4 other4 cv4 lg show ?thesis by simp
qed

lemma clean_numeric_column_result:
  assumes "wf_frame df" and "clean_numeric_column E col df = Inr df'"
  shows "wf_frame df' \<and> labels df' = labels df \<and> length (rows df') = length (rows df)
         \<and> (\<forall>c'. c' \<noteq> col \<longrightarrow> column_values df' c' = column_values df c')"
  using assms
  by (auto simp: clean_numeric_column_def wf_map_column labels_map_column
      length_rows_map_column column_values_map_column_other split: if_splits)

lemma clean_string_column_result:
  assumes "wf_frame df" and "clean_string_column E col df = Inr df'"
  shows "wf_frame df' \<and> labels df' = labels df \<and> length (rows df') = length (rows df)
         \<and> (\<forall>c'. c' \<noteq> col \<longrightarrow> column_values df' c' = column_values df c')
         \<and> (has_column df col \<longrightarrow>
              \<not> duplicated_label df col
              \<and> column_values df' col
                  = map (\<lambda>v. str_strip (replace_nan (astype_str E v))) (column_values df col))"
proof (cases "has_column df col")
  case False
  with assms show ?thesis by (simp add: clean_string_column_def)
next
  case True
  let ?a = "map_column col object (astype_str E) df"
  let ?b = "map_column col object replace_nan ?a"
  let ?c = "map_column col object str_strip ?b"
  from assms(2) True have nd: "\<not> duplicated_label df col" and res: "df' = ?c"
    by (auto simp: clean_string_column_def split: if_splits)
  have wa: "wf_frame ?a" and wb: "wf_frame ?b" and wc: "wf_frame ?c"
    using assms(1) by (simp_all add: wf_map_column)
  have ha: "has_column ?a col" and hb: "has_column ?b col"
    using True by (simp_all add: has_column_labels labels_map_column)
  have "column_values ?c col = map str_strip (column_values ?b col)"
    using wb hb by (rule column_values_map_column_same)
  also have "column_values ?b col = map replace_nan (column_values ?a col)"
    using wa ha by (rule column_values_map_column_same)
  also have "column_values ?a col = map (astype_str E) (column_values df col)"
    using assms(1) True by (rule column_values_map_column_same)
  finally have "column_values ?c col
      = map (\<lambda>v. str_strip (replace_nan (astype_str E v))) (column_values df col)"
    by (simp add: comp_def)
  with res nd wc show ?thesis
    by (simp add: labels_map_column length_rows_map_column column_values_map_column_other)
qed

lemma for_each_invariant:
  assumes "for_each f cs s = Inr s'" and "P s"
    and "\<And>c s s'. c \<in> set cs \<Longrightarrow> P s \<Longrightarrow> f c s = Inr s' \<Longrightarrow> P s'"
  shows "P s'"
  using assms
proof (induction cs arbitrary: s)
  case Nil
  then show ?case by simp
next
  case (Cons c cs)
  from Cons.prems(1) obtain s1 where s1: "f c s = Inr s1" "for_each f cs s1 = Inr s'"
    by (auto split: sum.splits)
  have "P s1" using Cons.prems(3)[OF _ Cons.prems(2) s1(1)] by simp
  then show ?case using Cons.IH[OF s1(2)] Cons.prems(3) by auto
qed

lemma for_each_split:
  "for_each f (pre @ c # post) s = Inr s' \<Longrightarrow>
   \<exists>s1 s2. for_each f pre s = Inr s1 \<and> f c s1 = Inr s2 \<and> for_each f post s2 = Inr s'"
proof (induction pre arbitrary: s)
  case Nil
  then show ?case by (auto split: sum.splits)
next
  case (Cons a pre)
  then show ?case by (auto split: sum.splits)
qed

lemma same_column_refl: "wf_frame df \<Longrightarrow> same_column df col df"
  by (simp add: same_column_def)

lemma dates_keep_column:
  assumes "for_each (clean_date_column E) cs (df, lg) = Inr (df', lg')"
    and "wf_frame df" and "col \<notin> set cs"
  shows "same_column df col df' \<and> (\<exists>extra. lg' = lg @ extra)"
proof -
  let ?P = "\<lambda>s. same_column df col (fst s) \<and> (\<exists>extra. snd s = lg @ extra)"
  have "?P (df', lg')"
  proof (rule for_each_invariant[OF assms(1), where P = ?P])
    show "?P (df, lg)" using assms(2) by (simp add: same_column_refl)
  next
    fix c s s' assume c: "c \<in> set cs" and p: "?P s" and st: "clean_date_column E c s = Inr s'"
    obtain d l where s: "s = (d, l)" by (cases s)
    obtain d' l' where s': "s' = (d', l')" by (cases s')
    from p s have wf: "wf_frame d" by (simp add: same_column_def)
    from c assms(3) have ne: "col \<noteq> c" by auto
    show "?P s'"
    proof (cases "has_column d c")
      case True
      from clean_date_column_present[OF wf True st[unfolded s s']] p s ne show ?thesis
        by (auto simp: s' same_column_def)
    next
      case False
      with st s have "s' = s" by (simp add: clean_date_column_absent)
      with p show ?thesis by simp
    qed
  qed
  then show ?thesis by simp
qed

lemma numerics_keep_column:
  assumes "for_each (clean_numeric_column E) cs df = Inr df'"
    and "wf_frame df" and "col \<notin> set cs"
  shows "same_column df col df'"
proof (rule for_each_invariant[OF assms(1), where P = "same_column df col"])
  show "same_column df col df" using assms(2) by (rule same_column_refl)
next
  fix c s s' assume c: "c \<in> set cs" and p: "same_column df col s"
    and st: "clean_numeric_column E c s = Inr s'"
  from p have wf: "wf_frame s" by (simp add: same_column_def)
  from c assms(3) have ne: "col \<noteq> c" by auto
  from clean_numeric_column_result[OF wf st] p ne show "same_column df col s'"
    by (auto simp: same_column_def)
qed

lemma strings_keep_column:
  assumes "for_each (clean_string_column E) cs df = Inr df'"
    and "wf_frame df" and "col \<notin> set cs"
  shows "same_column df col df'"
proof (rule for_each_invariant[OF assms(1), where P = "same_column df col"])
  show "same_column df col df" using assms(2) by (rule same_column_refl)
next
  fix c s s' assume c: "c \<in> set cs" and p: "same_column df col s"
    and st: "clean_string_column E c s = Inr s'"
  from p have wf: "wf_frame s" by (simp add: same_column_def)
  from c assms(3) have ne: "col \<noteq> c" by auto
  from clean_string_column_result[OF wf st] p ne show "same_column df col s'"
    by (auto simp: same_column_def)
qed

lemma same_column_trans:
  "same_column a col b \<Longrightarrow> same_column b col c \<Longrightarrow> same_column a col c"
  by (simp add: same_column_def)

lemma keys_rename_row:
  "map fst (map (\<lambda>(c, v). (rename_column c, v)) r) = map rename_column (map fst r)"
  by (induction r) auto

lemma labels_rename_columns: "labels (rename_columns df) = map rename_column (labels df)"
  by (simp add: labels_def rename_columns_def comp_def case_prod_unfold)

lemma keys_rename_row_comp:
  "map (fst \<circ> (\<lambda>(c, v). (rename_column c, v))) r = map rename_column (map fst r)"
  by (induction r) auto

lemma wf_rename_columns: "wf_frame df \<Longrightarrow> wf_frame (rename_columns df)"
  unfolding wf_frame_labels labels_rename_columns
  by (simp add: rename_columns_def keys_rename_row_comp)

lemma length_rows_rename_columns: "length (rows (rename_columns df)) = length (rows df)"
  by (simp add: rename_columns_def)

text \<open>The frame after cleaning keeps a date column as the date loop left it.\<close>

lemma clean_date_result:
  assumes "wf_frame df1"
    and "clean_and_transform_data E df1 = Inr (df, lg)"
    and "col \<in> set date_columns"
    and "has_column (rename_columns df1) col"
  shows "column_values df col = map (clamp_date E) (column_values (rename_columns df1) col)
         \<and> InvalidDates col
              (mask_sum (map isna (map (to_datetime_cell E) (column_values (rename_columns df1) col))))
              (mask_sum (map isna (column_values df col))) \<in> set lg
         \<and> length (rows df) = length (rows df1)"
proof -
  let ?r = "rename_columns df1"
  from assms(2) obtain df2 df3 where
    d: "for_each (clean_date_column E) date_columns (?r, []) = Inr (df2, lg)"
    and n: "for_each (clean_numeric_column E) numeric_columns df2 = Inr df3"
    and s: "for_each (clean_string_column E) string_columns df3 = Inr df"
    by (auto simp: clean_and_transform_data_def split: sum.splits prod.splits)
  have wfr: "wf_frame ?r" using assms(1) by (rule wf_rename_columns)
  have dist: "distinct date_columns" by (simp add: date_columns_def)
  from assms(3) obtain pre post where sp: "date_columns = pre @ col # post"
    by (auto simp: in_set_conv_decomp)
  from dist[unfolded sp] have npre: "col \<notin> set pre" and npost: "col \<notin> set post" by auto
  from for_each_split[OF d[unfolded sp]] obtain s1 s2 where
    p1: "for_each (clean_date_column E) pre (?r, []) = Inr s1"
    and p2: "clean_date_column E col s1 = Inr s2"
    and p3: "for_each (clean_date_column E) post s2 = Inr (df2, lg)" by blast
  obtain a la where s1: "s1 = (a, la)" by (cases s1)
  obtain b lb where s2: "s2 = (b, lb)" by (cases s2)
  from dates_keep_column[OF p1[unfolded s1] wfr npre]
  have k1: "same_column ?r col a" by simp
  then have wfa: "wf_frame a" and ha: "has_column a col"
    and cva: "column_values a col = column_values ?r col"
    and lena: "length (rows a) = length (rows ?r)"
    using assms(4) by (simp_all add: same_column_def has_column_labels)
  from clean_date_column_present[OF wfa ha p2[unfolded s1 s2]]
  have wfb: "wf_frame b" and lenb: "length (rows b) = length (rows a)"
    and cvb: "column_values b col = map (clamp_date E) (column_values a col)"
    and lgb: "\<exists>extra. lb = la @ extra @
               [InvalidDates col
                  (mask_sum (map isna (map (to_datetime_cell E) (column_values a col))))
                  (mask_sum (map isna (map (clamp_date E) (column_values a col))))]"
    by simp_all
  from dates_keep_column[OF p3[unfolded s2] wfb npost]
  have k3: "same_column b col df2" and lg3: "\<exists>extra. lg = lb @ extra" by simp_all
  have wf2: "wf_frame df2" using k3 by (simp add: same_column_def)
  have "col \<notin> set numeric_columns" "col \<notin> set string_columns"
    using assms(3) by (auto simp: date_columns_def numeric_columns_def string_columns_def)
  then have k4: "same_column df2 col df3" and k5: "same_column df3 col df"
    using numerics_keep_column[OF n wf2] strings_keep_column[OF s] 
    by (auto simp: same_column_def)
  from k3 k4 k5 have fin: "column_values df col = column_values b col"
    "length (rows df) = length (rows b)"
    by (simp_all add: same_column_def)
  with cvb cva have cv: "column_values df col = map (clamp_date E) (column_values ?r col)"
    by simp
  from lgb lg3 cva cv have "InvalidDates col
      (mask_sum (map isna (map (to_datetime_cell E) (column_values ?r col))))
      (mask_sum (map isna (column_values df col))) \<in> set lg"
    by auto
  with cv fin lenb lena show ?thesis by (simp add: length_rows_rename_columns)
qed

lemma rename_to_Name: "rename_column k = ''Name'' \<longleftrightarrow> k = ''name'' \<or> k = ''Name''"
  by (simp add: rename_column_def COLUMN_MAPPING_def)

lemma rename_name: "rename_column ''name'' = ''Name''"
  by (simp add: rename_column_def COLUMN_MAPPING_def)

lemma get_cell_rename_name:
  assumes "''name'' \<in> set (map fst r)"
    and "count_list (map rename_column (map fst r)) ''Name'' \<le> 1"
  shows "get_cell (map (\<lambda>(c, v). (rename_column c, v)) r) ''Name'' = get_cell r ''name''"
  using assms
proof (induction r)
  case Nil
  then show ?case by simp
next
  case (Cons kv r)
  obtain k v where kv: "kv = (k, v)" by (cases kv)
  show ?case
  proof (cases "k = ''name''")
    case True
    then show ?thesis by (simp add: kv get_cell_def rename_name)
  next
    case False
    with Cons.prems(1) have in_r: "''name'' \<in> set (map fst r)" by (simp add: kv)
    then have "rename_column ''name'' \<in> rename_column ` set (map fst r)"
      by (rule imageI)
    then have "''Name'' \<in> set (map rename_column (map fst r))"
      by (simp add: rename_name image_image)
    then have pos: "0 < count_list (map rename_column (map fst r)) ''Name''"
      by (metis count_list_0_iff gr0I)
    with Cons.prems(2) have ne: "rename_column k \<noteq> ''Name''"
      by (auto simp: kv split: if_splits)
    with Cons.prems(2) have "count_list (map rename_column (map fst r)) ''Name'' \<le> 1"
      by (simp add: kv)
    from Cons.IH[OF in_r this] ne False show ?thesis
      by (simp add: kv get_cell_def)
  qed
qed

lemma column_values_rename_name:
  assumes "wf_frame df" and "has_column df ''name''"
    and "\<not> duplicated_label (rename_columns df) ''Name''"
  shows "column_values (rename_columns df) ''Name'' = column_values df ''name''"
proof -
  have "\<forall>r\<in>set (rows df).
          get_cell (map (\<lambda>(c, v). (rename_column c, v)) r) ''Name'' = get_cell r ''name''"
  proof
    fix r assume "r \<in> set (rows df)"
    with assms(1) have k: "map fst r = labels df" by (simp add: wf_frame_labels)
    from assms(2) k have a: "''name'' \<in> set (map fst r)" by (simp add: has_column_labels)
    from assms(3) k have b: "count_list (map rename_column (map fst r)) ''Name'' \<le> 1"
      by (simp add: duplicated_label_labels labels_rename_columns)
    from a b show "get_cell (map (\<lambda>(c, v). (rename_column c, v)) r) ''Name'' = get_cell r ''name''"
      by (rule get_cell_rename_name)
  qed
  then show ?thesis
    by (simp add: column_values_def rename_columns_def comp_def)
qed

lemma clean_name_result:
  assumes "wf_frame df1" and "has_column df1 ''name''"
    and "clean_and_transform_data E df1 = Inr (df, lg)"
  shows "column_values df ''Name''
           = map (\<lambda>v. str_strip (replace_nan (astype_str E v))) (column_values df1 ''name'')
         \<and> length (rows df) = length (rows df1)"
proof -
  let ?r = "rename_columns df1"
  from assms(3) obtain df2 df3 where
    d: "for_each (clean_date_column E) date_columns (?r, []) = Inr (df2, lg)"
    and n: "for_each (clean_numeric_column E) numeric_columns df2 = Inr df3"
    and s: "for_each (clean_string_column E) string_columns df3 = Inr df"
    by (auto simp: clean_and_transform_data_def split: sum.splits prod.splits)
  have wfr: "wf_frame ?r" using assms(1) by (rule wf_rename_columns)
  have "''Name'' \<notin> set date_columns" "''Name'' \<notin> set numeric_columns"
    by (simp_all add: date_columns_def numeric_columns_def)
  then have k2: "same_column ?r ''Name'' df2"
    using dates_keep_column[OF d wfr] by simp
  then have wf2: "wf_frame df2" by (simp add: same_column_def)
  have k3: "same_column df2 ''Name'' df3"
    using numerics_keep_column[OF n wf2] by (simp add: numeric_columns_def)
  from k2 k3 have k: "same_column ?r ''Name'' df3" by (rule same_column_trans)
  then have wf3: "wf_frame df3" and lab3: "labels df3 = labels ?r"
    and cv3: "column_values df3 ''Name'' = column_values ?r ''Name''"
    and len3: "length (rows df3) = length (rows ?r)"
    by (simp_all add: same_column_def)
  from assms(2) have "rename_column ''name'' \<in> rename_column ` set (labels df1)"
    unfolding has_column_labels by (rule imageI)
  then have hr: "has_column ?r ''Name''"
    by (simp add: has_column_labels labels_rename_columns rename_name)
  then have h3: "has_column df3 ''Name''" by (simp add: has_column_labels lab3)
  let ?rest = "[''HomepageURL'', ''CategoryList'', ''Status'', ''CountryCode'', ''StateCode'',
      ''City'']"
  have sp: "string_columns = [] @ ''Name'' # ?rest"
    by (simp add: string_columns_def)
  from for_each_split[OF s[unfolded sp]] obtain s2 where
    st: "clean_string_column E ''Name'' df3 = Inr s2"
    and rest: "for_each (clean_string_column E) ?rest s2 = Inr df" by auto
  from clean_string_column_result[OF wf3 st] h3 have
    wfs: "wf_frame s2" and lens: "length (rows s2) = length (rows df3)"
    and nd: "\<not> duplicated_label df3 ''Name''"
    and cvs: "column_values s2 ''Name''
                = map (\<lambda>v. str_strip (replace_nan (astype_str E v))) (column_values df3 ''Name'')"
    by simp_all
  have "''Name'' \<notin> set ?rest" by simp
  from strings_keep_column[OF rest wfs this] have
    fin: "column_values df ''Name'' = column_values s2 ''Name''"
      "length (rows df) = length (rows s2)"
    by (simp_all add: same_column_def)
  from nd have "\<not> duplicated_label ?r ''Name''"
    by (simp add: duplicated_label_labels lab3)
  from column_values_rename_name[OF assms(1,2) this] cv3
  have "column_values df3 ''Name'' = column_values df1 ''name''" by simp
  with fin cvs lens len3 show ?thesis by (simp add: length_rows_rename_columns)
qed

lemma dropna_result:
  assumes "wf_frame df" and "dropna c df = Inr df'"
  shows "has_column df c \<and> wf_frame df' \<and> labels df' = labels df
         \<and> rows df' = filter (\<lambda>r. \<not> isna (get_cell r c)) (rows df)
         \<and> column_values df' c = filter (\<lambda>v. \<not> isna v) (column_values df c)"
  using assms
  by (auto simp: dropna_def wf_frame_labels labels_def column_values_def filter_map comp_def
      split: if_splits)

lemma validate_name_length_result:
  assumes "wf_frame df" and "has_column df ''name''"
    and "validate_name_length df = Inr (df', lg)"
  shows "wf_frame df' \<and> labels df' = labels df \<and> length (rows df') = length (rows df)
         \<and> column_values df' ''name''
             = map (\<lambda>v. if str_len_gt v (max_name_length VALIDATION_RULES)
                         then str_slice_to (max_name_length VALIDATION_RULES) v else v)
                 (column_values df ''name'')"
proof -
  let ?p = "\<lambda>v. str_len_gt v (max_name_length VALIDATION_RULES)"
  let ?flags = "map ?p (column_values df ''name'')"
  show ?thesis
  proof (cases "mask_any ?flags")
    case True
    with assms(2,3) have "df' = loc_update ?flags ''name''
        (str_slice_to (max_name_length VALIDATION_RULES)) df"
      by (auto simp: validate_name_length_def Let_def split: if_splits)
    then show ?thesis
      using column_values_loc_update_same[OF assms(1,2), of ?p] assms(1)
      by (simp add: wf_loc_update labels_loc_update length_rows_loc_update column_values_def)
  next
    case False
    with assms(2,3) have "df' = df"
      by (auto simp: validate_name_length_def Let_def split: if_splits)
    moreover from False have
      "map (\<lambda>v. if ?p v then str_slice_to (max_name_length VALIDATION_RULES) v else v)
          (column_values df ''name'') = column_values df ''name''"
      by (auto simp: mask_any_map intro: map_idI)
    ultimately show ?thesis using assms(1) by simp
  qed
qed

lemma validate_funding_result:
  assumes "wf_frame df" and "validate_funding df = Inr (df', lg)"
  shows "wf_frame df' \<and> labels df' = labels df \<and> length (rows df') = length (rows df)
         \<and> column_values df' ''name'' = column_values df ''name''"
proof -
  let ?flags = "map invalid_funding_cell (column_values df ''funding_total_usd'')"
  from assms(2) have "df' = df \<or> df' = loc_update ?flags ''funding_total_usd'' (\<lambda>_. NaN) df"
    by (auto simp: validate_funding_def Let_def split: if_splits)
  moreover have "length ?flags = length (rows df)" by (simp add: column_values_def)
  ultimately show ?thesis
    using assms(1)
    by (auto simp: wf_loc_update labels_loc_update length_rows_loc_update
        column_values_loc_update_other)
qed

lemma validate_data_result:
  assumes "wf_frame df0" and "validate_data df0 = Inr (df1, lg1)"
  shows "has_column df0 ''name'' \<and> wf_frame df1 \<and> labels df1 = labels df0
         \<and> length (rows df1) = length (filter (\<lambda>v. \<not> isna v) (column_values df0 ''name''))
         \<and> column_values df1 ''name''
             = map (\<lambda>v. if str_len_gt v (max_name_length VALIDATION_RULES)
                         then str_slice_to (max_name_length VALIDATION_RULES) v else v)
                 (filter (\<lambda>v. \<not> isna v) (column_values df0 ''name''))
         \<and> (\<exists>rest. lg1 = RemovedMissingNames
                              (length (filter isna (column_values df0 ''name''))) # rest)"
proof -
  from assms(2) obtain a b la lb where
    a: "dropna ''name'' df0 = Inr a"
    and b: "validate_name_length a = Inr (b, la)"
    and c: "validate_funding b = Inr (df1, lb)"
    and lg: "lg1 = [RemovedMissingNames (length (rows df0) - length (rows a))] @ la @ lb"
    by (auto simp: validate_data_def Let_def split: sum.splits prod.splits)
  from dropna_result[OF assms(1) a] have
    h0: "has_column df0 ''name''" and wfa: "wf_frame a" and laba: "labels a = labels df0"
    and rowsa: "rows a = filter (\<lambda>r. \<not> isna (get_cell r ''name'')) (rows df0)"
    and cva: "column_values a ''name'' = filter (\<lambda>v. \<not> isna v) (column_values df0 ''name'')"
    by simp_all
  have ha: "has_column a ''name''" using h0 laba by (simp add: has_column_labels)
  from validate_name_length_result[OF wfa ha b] have
    wfb: "wf_frame b" and labb: "labels b = labels a" and lenb: "length (rows b) = length (rows a)"
    and cvb: "column_values b ''name''
             = map (\<lambda>v. if str_len_gt v (max_name_length VALIDATION_RULES)
                         then str_slice_to (max_name_length VALIDATION_RULES) v else v)
                 (column_values a ''name'')"
    by simp_all
  from validate_funding_result[OF wfb c] have
    wf1: "wf_frame df1" and lab1: "labels df1 = labels b"
    and len1: "length (rows df1) = length (rows b)"
    and cv1: "column_values df1 ''name'' = column_values b ''name''"
    by simp_all
  have lena: "length (rows a) = length (filter (\<lambda>v. \<not> isna v) (column_values df0 ''name''))"
    using cva by (metis column_values_def length_map)
  have "length (filter isna (column_values df0 ''name''))
          + length (filter (\<lambda>v. \<not> isna v) (column_values df0 ''name''))
        = length (column_values df0 ''name'')"
    by (rule sum_length_filter_compl)
  then have cnt: "length (rows df0) - length (rows a)
      = length (filter isna (column_values df0 ''name''))"
    using lena by (simp add: column_values_def)
  from h0 wf1 lab1 labb laba len1 lenb lena cv1 cvb cva lg cnt show ?thesis
    by simp
qed

text \<open>What the pipeline makes of a name that is text.\<close>

lemma clean_text_name:
  assumes "s \<noteq> ''nan''"
  shows "str_strip (replace_nan (astype_str E
           (if str_len_gt (Str s) (max_name_length VALIDATION_RULES)
            then str_slice_to (max_name_length VALIDATION_RULES) (Str s) else Str s)))
         = Str (strip (take 255 s))"
proof -
  have m: "max_name_length VALIDATION_RULES = 255" by (simp add: VALIDATION_RULES_def)
  have t: "(if str_len_gt (Str s) 255 then str_slice_to 255 (Str s) else Str s) = Str (take 255 s)"
    by (simp add: str_len_gt_def str_slice_to_def)
  have "take 255 s \<noteq> ''nan''"
  proof
    assume e: "take 255 s = ''nan''"
    then have "length (take 255 s) = 3" by simp
    then have "length s = 3" by (simp add: min_def split: if_splits)
    then have "take 255 s = s" by simp
    with e assms show False by simp
  qed
  then show ?thesis
    unfolding m t by (simp add: astype_str_def replace_nan_def str_strip_def)
qed

section \<open>Properties of validation and cleaning\<close>

lemma validate_blank_name:
  "validate_data blank_name_frame = Inr (blank_name_kept, [RemovedMissingNames 1])"
  by code_simp

lemma clean_blank_name:
  "clean_and_transform_data (example_env 100 blank_name_frame True True) blank_name_kept
     = Inr (blank_name_clean, [])"
  by code_simp

lemma clean_dated:
  "clean_and_transform_data dated_env dated_frame =
     Inr (dated_clean,
          [TooOld ''FoundedAt'' 1, TooNew ''FoundedAt'' 1, InvalidDates ''FoundedAt'' 1 3])"
  by code_simp

text \<open>
  C3 as the specification states it, at a concrete input: a record whose name is three
  blanks is not null when validation runs, so it is kept; cleaning then strips the name,
  and the record reaches the output with the empty string as its Name.
\<close>

theorem blank_name_survives:
  "validate_data blank_name_frame = Inr (blank_name_kept, [RemovedMissingNames 1])
   \<and> clean_and_transform_data (example_env 100 blank_name_frame True True) blank_name_kept
       = Inr (blank_name_clean, [])
   \<and> column_values blank_name_clean ''Name'' = [Str []]"
  by code_simp

lemma name_column_result:
  assumes "wf_frame df0"
    and "\<forall>v\<in>set (column_values df0 ''name''). v = NaN \<or> (\<exists>s. v = Str s \<and> s \<noteq> ''nan'')"
    and "validate_data df0 = Inr (df1, lg1)"
    and "clean_and_transform_data E df1 = Inr (df, lg2)"
  shows "column_values df ''Name''
           = map (\<lambda>v. case v of Str s \<Rightarrow> Str (strip (take 255 s)) | _ \<Rightarrow> NaN)
               (filter (\<lambda>v. \<not> isna v) (column_values df0 ''name''))
         \<and> (\<forall>v\<in>set (column_values df ''Name''). \<not> isna v)
         \<and> length (rows df) = length (filter (\<lambda>v. \<not> isna v) (column_values df0 ''name''))
         \<and> (\<exists>rest. lg1 = RemovedMissingNames
                              (length (filter isna (column_values df0 ''name''))) # rest)"
proof -
  let ?kept = "filter (\<lambda>v. \<not> isna v) (column_values df0 ''name'')"
  let ?trunc = "\<lambda>v. if str_len_gt v (max_name_length VALIDATION_RULES)
                      then str_slice_to (max_name_length VALIDATION_RULES) v else v"
  from validate_data_result[OF assms(1,3)] have
    h0: "has_column df0 ''name''" and wf1: "wf_frame df1" and lab: "labels df1 = labels df0"
    and len1: "length (rows df1) = length ?kept"
    and cv1: "column_values df1 ''name'' = map ?trunc ?kept"
    and lg: "\<exists>rest. lg1 = RemovedMissingNames
                              (length (filter isna (column_values df0 ''name''))) # rest"
    by simp_all
  have h1: "has_column df1 ''name''" using h0 lab by (simp add: has_column_labels)
  from clean_name_result[OF wf1 h1 assms(4)] have
    cv: "column_values df ''Name''
           = map (\<lambda>v. str_strip (replace_nan (astype_str E v))) (column_values df1 ''name'')"
    and len: "length (rows df) = length (rows df1)" by simp_all
  have strs: "\<forall>v\<in>set ?kept. \<exists>s. v = Str s \<and> s \<noteq> ''nan''"
    using assms(2) by (auto simp: isna_def)
  have "map (\<lambda>v. str_strip (replace_nan (astype_str E (?trunc v)))) ?kept
          = map (\<lambda>v. case v of Str s \<Rightarrow> Str (strip (take 255 s)) | _ \<Rightarrow> NaN) ?kept"
  proof (rule map_cong[OF refl])
    fix v assume "v \<in> set ?kept"
    with strs obtain s where v: "v = Str s" and s: "s \<noteq> ''nan''" by blast
    show "str_strip (replace_nan (astype_str E (?trunc v)))
                 = (case v of Str s \<Rightarrow> Str (strip (take 255 s)) | _ \<Rightarrow> NaN)"
      unfolding v using clean_text_name[OF s, of E] by (simp only: cell.case)
  qed
  with cv cv1 have c: "column_values df ''Name''
      = map (\<lambda>v. case v of Str s \<Rightarrow> Str (strip (take 255 s)) | _ \<Rightarrow> NaN) ?kept"
    by (simp add: comp_def)
  have nonnull: "\<forall>v\<in>set (column_values df ''Name''). \<not> isna v"
  proof
    fix v assume "v \<in> set (column_values df ''Name'')"
    then obtain u where u: "u \<in> set ?kept"
      and v: "v = (case u of Str s \<Rightarrow> Str (strip (take 255 s)) | _ \<Rightarrow> NaN)"
      unfolding c by (auto simp only: set_map)
    from strs u obtain s where "u = Str s" by blast
    with v show "\<not> isna v" by (simp add: isna_def)
  qed
  from c nonnull len len1 lg show ?thesis by (simp only: simp_thms)
qed

text \<open>
  C3, amended. Take a well-formed frame whose name column holds text or the missing
  marker (the text \<^verbatim>\<open>nan\<close> does not occur: the loader reads it as missing), and let
  validation and cleaning complete. Validation runs before cleaning and drops exactly the
  records whose name is null, logging their number. Every other record survives, and its
  Name is the source name cut to 255 characters and then stripped of surrounding
  whitespace: it is never null, but it is empty when the source name was only whitespace.
\<close>

theorem surviving_names:
  assumes "wf_frame df0"
    and "\<forall>v\<in>set (column_values df0 ''name''). v = NaN \<or> (\<exists>s. v = Str s \<and> s \<noteq> ''nan'')"
    and "validate_data df0 = Inr (df1, lg1)"
    and "clean_and_transform_data E df1 = Inr (df, lg2)"
  shows "column_values df ''Name''
           = map (\<lambda>v. case v of Str s \<Rightarrow> Str (strip (take 255 s)) | _ \<Rightarrow> NaN)
               (filter (\<lambda>v. \<not> isna v) (column_values df0 ''name''))
         \<and> (\<forall>v\<in>set (column_values df ''Name''). \<not> isna v)
         \<and> length (rows df) = length (filter (\<lambda>v. \<not> isna v) (column_values df0 ''name''))
         \<and> (\<exists>rest. lg1 = RemovedMissingNames
                              (length (filter isna (column_values df0 ''name''))) # rest)"
  using assms by (rule name_column_result)

theorem surviving_names_witness:
  "wf_frame blank_name_frame
   \<and> column_values blank_name_frame ''name'' = [Str ''   '', NaN]
   \<and> validate_data blank_name_frame = Inr (blank_name_kept, [RemovedMissingNames 1])
   \<and> clean_and_transform_data (example_env 100 blank_name_frame True True) blank_name_kept
       = Inr (blank_name_clean, [])
   \<and> column_values blank_name_clean ''Name'' = [Str []]
   \<and> length (rows blank_name_clean) = 1"
proof -
  have h1: "wf_frame blank_name_frame" by code_simp
  have cols: "column_values blank_name_frame ''name'' = [Str ''   '', NaN]" by code_simp
  have h2: "\<forall>v\<in>set (column_values blank_name_frame ''name'').
              v = NaN \<or> (\<exists>s. v = Str s \<and> s \<noteq> ''nan'')"
    unfolding cols by simp
  have k: "map (\<lambda>v. case v of Str s \<Rightarrow> Str (strip (take 255 s)) | _ \<Rightarrow> NaN)
             (filter (\<lambda>v. \<not> isna v) [Str ''   '', NaN]) = [Str []]" by code_simp
  have n: "length (filter (\<lambda>v. \<not> isna v) [Str ''   '', NaN]) = 1" by code_simp
  from surviving_names[OF h1 h2 validate_blank_name clean_blank_name]
  have "column_values blank_name_clean ''Name'' = [Str []]"
    and "length (rows blank_name_clean) = 1"
    unfolding cols k n by blast+
  with h1 cols validate_blank_name clean_blank_name show ?thesis by (simp only: simp_thms)
qed

lemma length_strip: "length (strip s) \<le> length s"
proof -
  have "length (strip s) = length (dropWhile is_space (rev (dropWhile is_space s)))"
    by (simp add: strip_def)
  also have "\<dots> \<le> length (rev (dropWhile is_space s))"
    by (rule length_dropWhile_le)
  also have "\<dots> = length (dropWhile is_space s)" by simp
  also have "\<dots> \<le> length s" by (rule length_dropWhile_le)
  finally show ?thesis .
qed

lemma validate_long_name:
  "validate_data long_name_frame = Inr (long_name_kept, [RemovedMissingNames 0, LongNames 1])"
  by code_simp

lemma clean_long_name:
  "clean_and_transform_data (example_env 100 long_name_frame True True) long_name_kept
     = Inr (long_name_clean, [])"
  by code_simp

text \<open>
  The length rule for the name. Under the conditions of the last theorem, every Name in
  the output is a string of at most \<open>max_name_length\<close>, that is 255, characters: a longer
  source name is cut to the limit and its record is kept.
\<close>

theorem names_within_limit:
  assumes "wf_frame df0"
    and "\<forall>v\<in>set (column_values df0 ''name''). v = NaN \<or> (\<exists>s. v = Str s \<and> s \<noteq> ''nan'')"
    and "validate_data df0 = Inr (df1, lg1)"
    and "clean_and_transform_data E df1 = Inr (df, lg2)"
  shows "\<forall>v\<in>set (column_values df ''Name'').
           \<exists>s. v = Str s \<and> length s \<le> max_name_length VALIDATION_RULES"
proof
  fix v assume "v \<in> set (column_values df ''Name'')"
  with name_column_result[OF assms] obtain u where
    u: "u \<in> set (filter (\<lambda>v. \<not> isna v) (column_values df0 ''name''))"
    and v: "v = (case u of Str s \<Rightarrow> Str (strip (take 255 s)) | _ \<Rightarrow> NaN)"
    by (auto simp only: set_map)
  from u assms(2) obtain s where "u = Str s" by (auto simp: isna_def)
  with v have "v = Str (strip (take 255 s))" by simp
  moreover have "length (strip (take 255 s)) \<le> 255"
    using length_strip[of "take 255 s"] by simp
  ultimately show "\<exists>s. v = Str s \<and> length s \<le> max_name_length VALIDATION_RULES"
    by (simp add: VALIDATION_RULES_def)
qed

text \<open>A name of 300 characters leaves the pipeline with its first 255.\<close>

theorem names_within_limit_witness:
  "wf_frame long_name_frame
   \<and> column_values long_name_frame ''name'' = [Str (replicate 300 (CHR ''y''))]
   \<and> validate_data long_name_frame = Inr (long_name_kept, [RemovedMissingNames 0, LongNames 1])
   \<and> clean_and_transform_data (example_env 100 long_name_frame True True) long_name_kept
       = Inr (long_name_clean, [])
   \<and> column_values long_name_clean ''Name'' = [Str (replicate 255 (CHR ''y''))]
   \<and> length (replicate 255 (CHR ''y'')) \<le> max_name_length VALIDATION_RULES"
proof -
  have h1: "wf_frame long_name_frame" by code_simp
  have cols: "column_values long_name_frame ''name'' = [Str (replicate 300 (CHR ''y''))]"
    by code_simp
  have ne: "replicate 300 (CHR ''y'') \<noteq> ''nan''" by code_simp
  have h2: "\<forall>v\<in>set (column_values long_name_frame ''name'').
              v = NaN \<or> (\<exists>s. v = Str s \<and> s \<noteq> ''nan'')"
    unfolding cols using ne by simp
  have out: "column_values long_name_clean ''Name'' = [Str (replicate 255 (CHR ''y''))]"
    by code_simp
  from names_within_limit[OF h1 h2 validate_long_name clean_long_name]
  have "\<exists>s. Str (replicate 255 (CHR ''y'')) = Str s \<and> length s \<le> max_name_length VALIDATION_RULES"
    unfolding out by simp
  then have "length (replicate 255 (CHR ''y'')) \<le> max_name_length VALIDATION_RULES"
    by (simp only: cell.inject ex_simps simp_thms)
  with h1 cols validate_long_name clean_long_name out show ?thesis by (simp only: simp_thms)
qed

text \<open>
  C6 as the specification states it, at a concrete input: the value half a microsecond
  past midnight of 2000-01-01 is retained with its time of day, and the value one
  nanosecond past midnight of 9999-12-31, whose calendar date is not after 9999-12-31, is
  replaced by null.
\<close>

theorem time_of_day_kept:
  "clean_and_transform_data dated_env dated_frame =
     Inr (dated_clean,
          [TooOld ''FoundedAt'' 1, TooNew ''FoundedAt'' 1, InvalidDates ''FoundedAt'' 1 3])
   \<and> column_values dated_clean ''FoundedAt''
       = [TS \<lparr>year = 2000, month = 1, day = 1, nanos = 500\<rparr>, NaN, NaN, NaN]
   \<and> to_datetime dated_env (Str ''9999-12-31 00:00:00.000000001'')
       = Some \<lparr>year = 9999, month = 12, day = 31, nanos = 1\<rparr>"
  by code_simp

text \<open>
  C6, amended. For each of FoundedAt, FirstFundingAt and LastFundingAt that the renamed
  frame has, cleaning leaves in every record \<open>clamp_date\<close> of the source cell: null when
  the cell does not parse, null when the parsed timestamp is strictly before 1753-01-01
  00:00 or strictly after 9999-12-31 00:00, and otherwise the parsed timestamp itself,
  time of day included. The log holds the column's null counts before and after the range
  check.
\<close>

theorem dates_clamped:
  assumes "wf_frame df1"
    and "clean_and_transform_data E df1 = Inr (df, lg)"
    and "col \<in> set date_columns"
    and "has_column (rename_columns df1) col"
  shows "column_values df col = map (clamp_date E) (column_values (rename_columns df1) col)
         \<and> InvalidDates col
              (mask_sum (map isna (map (to_datetime_cell E) (column_values (rename_columns df1) col))))
              (mask_sum (map isna (column_values df col))) \<in> set lg"
  using clean_date_result[OF assms] by blast

theorem dates_clamped_witness:
  "wf_frame dated_frame
   \<and> ''FoundedAt'' \<in> set date_columns
   \<and> has_column (rename_columns dated_frame) ''FoundedAt''
   \<and> column_values dated_clean ''FoundedAt''
       = [TS \<lparr>year = 2000, month = 1, day = 1, nanos = 500\<rparr>, NaN, NaN, NaN]
   \<and> InvalidDates ''FoundedAt'' 1 3
       \<in> set [TooOld ''FoundedAt'' 1, TooNew ''FoundedAt'' 1, InvalidDates ''FoundedAt'' 1 3]"
proof -
  have h1: "wf_frame dated_frame" by code_simp
  have h3: "''FoundedAt'' \<in> set date_columns" by (simp add: date_columns_def)
  have h4: "has_column (rename_columns dated_frame) ''FoundedAt''" by code_simp
  have a: "map (clamp_date dated_env) (column_values (rename_columns dated_frame) ''FoundedAt'')
        = [TS \<lparr>year = 2000, month = 1, day = 1, nanos = 500\<rparr>, NaN, NaN, NaN]" by code_simp
  have b: "mask_sum (map isna (map (to_datetime_cell dated_env)
              (column_values (rename_columns dated_frame) ''FoundedAt''))) = 1" by code_simp
  have c: "mask_sum (map isna (column_values dated_clean ''FoundedAt'')) = 3" by code_simp
  from dates_clamped[OF h1 clean_dated h3 h4] show ?thesis
    unfolding a b c using h1 h3 h4 by (simp only: simp_thms)
qed

text \<open>
  C2, at the input on which the code departs from it: a record with a homepage URL of 501
  characters passes validation untouched (only the name is checked for length) and leaves
  cleaning with all 501 characters, above the configured maximum of 500.
\<close>

theorem long_url_survives:
  "validate_data long_url_frame = Inr (long_url_frame, [RemovedMissingNames 0])
   \<and> clean_and_transform_data E long_url_frame =
       Inr (\<lparr>columns = [(''Name'', object), (''HomepageURL'', object)],
             rows = [[(''Name'', Str ''a''),
                      (''HomepageURL'', Str (replicate 501 (CHR ''x'')))]]\<rparr>, [])
   \<and> max_url_length VALIDATION_RULES < length (replicate 501 (CHR ''x''))"
  by code_simp

text \<open>
  C8, at the inputs on which the code departs from it. A header without the name column:
  \<^verbatim>\<open>dropna(subset=['name'])\<close> raises KeyError and the run fails before anything is
  written. A header without the country column: validation and cleaning complete and the
  data are loaded into a table without that column; the sample query of the verification
  selects it, so the run fails there, and the report, which reads the column of the frame
  without a guard, raises KeyError on this frame.
\<close>

theorem missing_column_fails_run:
  "validate_data nameless_frame = Inl (KeyError ''name'')
   \<and> main (example_env 100 nameless_frame True True) MIGRATION_CONFIG (example_world None)
       = (False, example_world None)
   \<and> fst (main (example_env 100 no_country_frame True True) MIGRATION_CONFIG (example_world None))
       = False
   \<and> db (snd (main (example_env 100 no_country_frame True True) MIGRATION_CONFIG
                 (example_world None)))
       = Some [[(''Name'', Str ''a''), (''FundingTotalUSD'', Num 5),
                (''CategoryList'', Str ''Software''), (''Status'', Str ''operating'')]]
   \<and> prepared (example_env 100 no_country_frame True True) (example_world None)
       = Some (no_country_clean, started_world)
   \<and> \<not> verify_migration (example_env 100 no_country_frame True True)
          (snd (migrate_data_to_sql (example_env 100 no_country_frame True True) MIGRATION_CONFIG
                  no_country_clean started_world))
   \<and> generate_summary_report (example_env 100 no_country_frame True True) no_country_clean
        (snd (migrate_data_to_sql (example_env 100 no_country_frame True True) MIGRATION_CONFIG
                no_country_clean started_world))
       = Inl (KeyError ''CountryCode'')"
  by code_simp

end
